theory Spec2Isabelle
  imports Main "HOL-Library.Word"
begin

section \<open>The PostgreSQL connection pool (ConnectionPoolImpl)\<close>

text \<open>
  A shallow embedding of \<^verbatim>\<open>storages::postgres::detail::ConnectionPoolImpl\<close>.
  The pool is shared by concurrently running tasks, so the embedding is an interleaving
  machine: every member function is cut at its synchronising operations (an atomic
  counter, the idle queue, a blocking wait) and the pieces are run by a schedule, a list
  of actions. Logging and the latency percentiles (\<^verbatim>\<open>Stopwatch\<close>) are left out, and so
  are Begin and Start (Acquire with a start time), PingConnections (Acquire in a loop,
  each handle let go at once) and the destructor.

  Member names lose the trailing underscore of the source (\<^verbatim>\<open>queue_\<close> is
  \<open>queue\<close>); \<^verbatim>\<open>size_\<close> is \<open>size_counter\<close> and
  \<^verbatim>\<open>transaction.total\<close> is \<open>total_cnt\<close>, as \<open>size\<close> and \<open>total\<close> are constants of HOL.
\<close>

subsection \<open>Data\<close>

text \<open>
  \<^verbatim>\<open>size_\<close> and \<^verbatim>\<open>wait_count_\<close> are \<^verbatim>\<open>std::atomic<size_t>\<close>, changed only by the
  constructor and the destructor of a size guard; they are natural numbers here (a wrap
  would need \<open>2 ^ 64\<close> guards alive at once, and a decrement is always that of a guard
  whose increment came before, see the invariant below). The statistics counters are
  \<^verbatim>\<open>RelaxedCounter<uint32_t>\<close> and wrap as 32-bit words.
\<close>

type_synonym Counter = "32 word"

text \<open>Time points and durations, in milliseconds.\<close>

type_synonym TimePoint = nat
type_synonym Deadline = nat

record PoolSettings =
  min_size :: nat
  max_size :: nat
  max_queue_size :: nat

text \<open>
  \<^verbatim>\<open>TimeoutDuration\<close> is \<^verbatim>\<open>std::chrono::milliseconds\<close>: a signed 64-bit count of
  milliseconds, read with \<open>sint\<close>; its arithmetic wraps.
\<close>

type_synonym TimeoutDuration = "64 word"

record CommandControl =
  network :: TimeoutDuration
  statement :: TimeoutDuration

text \<open>
  Modelled from the spec: the class Connection is not part of the sources. Its states are
  those of the spec's data model (a connection being established is a Connect task
  here, not a connection), with the three lifecycle queries.
\<close>

datatype ConnectionState = Idle | InTransaction | BusyDirty | Disconnected

definition IsIdle :: "ConnectionState \<Rightarrow> bool" where
  "IsIdle s = (s = Idle)"

definition IsConnected :: "ConnectionState \<Rightarrow> bool" where
  "IsConnected s = (s \<noteq> Disconnected)"

definition IsInTransaction :: "ConnectionState \<Rightarrow> bool" where
  "IsInTransaction s = (s = InTransaction)"

text \<open>The counters of \<^verbatim>\<open>Connection::Statistics\<close> that AccountConnectionStats reads.\<close>

record ConnStatistics =
  conn_trx_total :: nat
  conn_commit_total :: nat
  conn_rollback_total :: nat
  conn_out_of_trx :: nat
  conn_parse_total :: nat
  conn_execute_total :: nat
  conn_reply_total :: nat
  conn_bin_reply_total :: nat
  conn_error_execute_total :: nat
  conn_execute_timeout :: nat

definition no_stats :: ConnStatistics where
  "no_stats = \<lparr>conn_trx_total = 0, conn_commit_total = 0, conn_rollback_total = 0,
     conn_out_of_trx = 0, conn_parse_total = 0, conn_execute_total = 0,
     conn_reply_total = 0, conn_bin_reply_total = 0, conn_error_execute_total = 0,
     conn_execute_timeout = 0\<rparr>"

text \<open>
  A connection is owned by exactly one holder at a time (the idle queue, a caller, a
  cleanup task), so it is a value that moves between them. Every connection holds the
  size guard that its Connect task moved into it.
\<close>

record Connection =
  conn_id :: Counter
  conn_state :: ConnectionState
  conn_stats :: ConnStatistics
  conn_cmd_ctl :: CommandControl

record ConnectionStatistics =
  open_total :: Counter
  drop_total :: Counter
  active :: Counter
  used :: Counter
  maximum :: Counter
  waiting :: Counter
  error_total :: Counter
  error_timeout :: Counter

record TransactionStatistics =
  total_cnt :: Counter
  commit_total :: Counter
  rollback_total :: Counter
  out_of_trx_total :: Counter
  parse_total :: Counter
  execute_total :: Counter
  reply_total :: Counter
  bin_reply_total :: Counter
  error_execute_total :: Counter
  execute_timeout :: Counter

record InstanceStatistics =
  connection :: ConnectionStatistics
  transaction :: TransactionStatistics
  pool_exhaust_errors :: Counter
  queue_size_errors :: Counter

datatype pg_error = InvalidConfig string | PoolError string

text \<open>
  Modelled from the spec: the idle queue's type is not part of the sources. It is a
  bounded queue whose capacity is fixed at construction; push is refused when it is
  full, pop fails when it is empty.
\<close>

record 'a bounded_queue =
  capacity :: nat
  items :: "'a list"

definition queue_push :: "'a \<Rightarrow> 'a bounded_queue \<Rightarrow> 'a bounded_queue option" where
  "queue_push x q =
     (if length (items q) < capacity q then Some (q\<lparr>items := items q @ [x]\<rparr>) else None)"

definition queue_pop :: "'a bounded_queue \<Rightarrow> ('a \<times> 'a bounded_queue) option" where
  "queue_pop q =
     (case items q of [] \<Rightarrow> None | x # xs \<Rightarrow> Some (x, q\<lparr>items := xs\<rparr>))"

text \<open>
  What the pool does to its collaborators, in the order it does it: the physical connect
  issued and come back with a connection, a waiter notified, a connection destroyed,
  Cleanup called with its timeout, the ping task started.
\<close>

datatype event =
    EvPhysicalConnect Counter
  | EvConnected Counter
  | EvNotifyOne
  | EvDelete Counter
  | EvCleanup Counter TimeoutDuration
  | EvStartPingTask

text \<open>
  A caller of Acquire, at the places where Pop touches shared state: before anything
  (\<open>PopStart\<close>), after the miss on the idle queue (\<open>PopMiss\<close>), holding the wait guard
  with its value (\<open>PopWaitGuarded\<close>), holding the wait guard and the size guard with its
  value (\<open>PopSizeGuarded\<close>), inside WaitUntil (\<open>PopWaiting\<close>); then with the connection
  (\<open>Holding\<close>), with the exception (\<open>Failed\<close>), or after Release (\<open>Released\<close>).
\<close>

datatype caller =
    PopStart Deadline
  | PopMiss Deadline
  | PopWaitGuarded Deadline nat
  | PopSizeGuarded Deadline nat
  | PopWaiting Deadline
  | Holding Connection
  | Failed pg_error
  | Released

text \<open>
  A detached task: a Connect task before it runs (it holds a size guard), during the
  physical connect (with the connection id and the command control it read), a cleanup
  task before and during Cleanup (it holds the connection and the guard of the used
  counter), or finished.
\<close>

datatype task =
    ConnectQueued
  | ConnectRunning Counter CommandControl
  | CleanupQueued Connection
  | CleanupRunning Connection
  | TaskDone

record pool =
  dsn :: string
  settings :: PoolSettings
  queue :: "Connection bounded_queue"
  size_counter :: nat
  wait_count :: nat
  default_cmd_ctl :: CommandControl
  stats :: InstanceStatistics
  recent_conn_errors :: "TimePoint list"
  now :: TimePoint
  callers :: "caller list"
  tasks :: "task list"
  events :: "event list"

subsection \<open>Guards and the error window\<close>

text \<open>
  Modelled from the spec: utils::SizeGuard is not part of the sources. Its constructor
  increments the counter and keeps the incremented value (GetValue), its destructor
  decrements the counter.
\<close>

definition guard_enter :: "nat \<Rightarrow> nat \<times> nat" where
  "guard_enter counter = (counter + 1, counter + 1)"

definition guard_leave :: "nat \<Rightarrow> nat" where
  "guard_leave counter = counter - 1"

definition kRecentErrorThreshold :: nat where
  "kRecentErrorThreshold = 2"

definition kRecentErrorPeriod :: nat where
  "kRecentErrorPeriod = 15000"

text \<open>
  Modelled from the spec: utils::statistics::RecentPeriod is not part of the sources.
  The window keeps the time of every recorded failure; GetStatsForPeriod counts those
  younger than the period.
\<close>

definition GetStatsForPeriod :: "nat \<Rightarrow> TimePoint \<Rightarrow> TimePoint list \<Rightarrow> nat" where
  "GetStatsForPeriod period t errs = length (filter (\<lambda>e. t < e + period) errs)"

text \<open>
  Modelled from the spec: engine::Deadline is not part of the sources. A deadline is an
  absolute time; it is reached when the clock is at it or past it.
\<close>

definition IsReached :: "Deadline \<Rightarrow> TimePoint \<Rightarrow> bool" where
  "IsReached d t = (d \<le> t)"

subsection \<open>Construction\<close>

definition ConnectionPoolImpl :: "string \<Rightarrow> PoolSettings \<Rightarrow> CommandControl \<Rightarrow> TimePoint \<Rightarrow> pool" where
  "ConnectionPoolImpl d s c t =
     \<lparr>dsn = d, settings = s, queue = \<lparr>capacity = max_size s, items = []\<rparr>,
      size_counter = 0, wait_count = 0, default_cmd_ctl = c,
      stats = \<lparr>connection = \<lparr>open_total = 0, drop_total = 0, active = 0, used = 0,
                 maximum = 0, waiting = 0, error_total = 0, error_timeout = 0\<rparr>,
               transaction = \<lparr>total_cnt = 0, commit_total = 0, rollback_total = 0,
                 out_of_trx_total = 0, parse_total = 0, execute_total = 0, reply_total = 0,
                 bin_reply_total = 0, error_execute_total = 0, execute_timeout = 0\<rparr>,
               pool_exhaust_errors = 0, queue_size_errors = 0\<rparr>,
      recent_conn_errors = [], now = t, callers = [], tasks = [], events = []\<rparr>"

text \<open>\<^verbatim>\<open>Connect(SharedSizeGuard{size_}).Detach()\<close>: a guard is taken and moved into a new task.\<close>

definition spawn_connect :: "pool \<Rightarrow> pool" where
  "spawn_connect p =
     p\<lparr>size_counter := fst (guard_enter (size_counter p)), tasks := tasks p @ [ConnectQueued]\<rparr>"

fun spawn_connects :: "nat \<Rightarrow> pool \<Rightarrow> pool" where
  "spawn_connects 0 p = p"
| "spawn_connects (Suc n) p = spawn_connects n (spawn_connect p)"

definition StartPingTask :: "pool \<Rightarrow> pool" where
  "StartPingTask p = p\<lparr>events := events p @ [EvStartPingTask]\<rparr>"

definition Init :: "pool \<Rightarrow> pg_error + pool" where
  "Init p =
     (if dsn p = [] then Inl (InvalidConfig ''PostgreSQL DSN is empty'')
      else if min_size (settings p) > max_size (settings p)
        then Inl (InvalidConfig ''PostgreSQL pool max size is less than requested initial size'')
      else Inr (StartPingTask (spawn_connects (min_size (settings p)) p)))"

definition Create :: "string \<Rightarrow> PoolSettings \<Rightarrow> CommandControl \<Rightarrow> TimePoint \<Rightarrow> pg_error + pool" where
  "Create d s c t = Init (ConnectionPoolImpl d s c t)"

subsection \<open>Push, DeleteConnection, AccountConnectionStats\<close>

text \<open>
  \<^verbatim>\<open>delete connection\<close> runs the destructor of the size guard the connection holds,
  then the drop counter is incremented.
\<close>

definition DeleteConnection :: "Connection \<Rightarrow> pool \<Rightarrow> pool" where
  "DeleteConnection c p =
     (stats_update \<circ> connection_update \<circ> drop_total_update) (\<lambda>n. n + 1)
       (p\<lparr>size_counter := guard_leave (size_counter p),
          events := events p @ [EvDelete (conn_id c)]\<rparr>)"

definition Push :: "Connection \<Rightarrow> pool \<Rightarrow> pool" where
  "Push c p =
     (case queue_push c (queue p) of
        Some q \<Rightarrow> p\<lparr>queue := q, events := events p @ [EvNotifyOne]\<rparr>
      | None \<Rightarrow> DeleteConnection c p)"

definition AccountConnectionStats :: "ConnStatistics \<Rightarrow> pool \<Rightarrow> pool" where
  "AccountConnectionStats cs p =
     (stats_update \<circ> transaction_update) (\<lambda>t.
        t\<lparr>total_cnt := total_cnt t + of_nat (conn_trx_total cs),
          commit_total := commit_total t + of_nat (conn_commit_total cs),
          rollback_total := rollback_total t + of_nat (conn_rollback_total cs),
          out_of_trx_total := out_of_trx_total t + of_nat (conn_out_of_trx cs),
          parse_total := parse_total t + of_nat (conn_parse_total cs),
          execute_total := execute_total t + of_nat (conn_execute_total cs),
          reply_total := reply_total t + of_nat (conn_reply_total cs),
          bin_reply_total := bin_reply_total t + of_nat (conn_bin_reply_total cs),
          error_execute_total := error_execute_total t + of_nat (conn_error_execute_total cs),
          execute_timeout := execute_timeout t + of_nat (conn_execute_timeout cs)\<rparr>) p"

text \<open>\<^verbatim>\<open>connection->GetStatsAndReset()\<close>: the statistics read, and the connection without them.\<close>

definition GetStatsAndReset :: "Connection \<Rightarrow> ConnStatistics \<times> Connection" where
  "GetStatsAndReset c = (conn_stats c, c\<lparr>conn_stats := no_stats\<rparr>)"

subsection \<open>Acquire and Pop\<close>

text \<open>The end of Acquire, once Pop has returned a connection.\<close>

definition Acquire_finish :: "Connection \<Rightarrow> pool \<Rightarrow> caller \<times> pool" where
  "Acquire_finish c p =
     (Holding (c\<lparr>conn_cmd_ctl := default_cmd_ctl p\<rparr>),
      (stats_update \<circ> connection_update \<circ> used_update) (\<lambda>n. n + 1) p)"

text \<open>
  The next piece of Pop for a caller. WaitUntil tries the queue, then gives up if the
  deadline is reached, and otherwise keeps waiting; the wait guard is left on every way
  out of Pop, the size guard at the end of its block unless it was moved into Connect.
\<close>

fun Pop_step :: "caller \<Rightarrow> pool \<Rightarrow> caller \<times> pool" where
  "Pop_step (PopStart d) p =
     (if IsReached d (now p) then
        (Failed (PoolError ''Deadline reached before trying to get a connection''),
         (stats_update \<circ> connection_update \<circ> error_timeout_update) (\<lambda>n. n + 1) p)
      else (case queue_pop (queue p) of
              Some (c, q) \<Rightarrow> Acquire_finish c (p\<lparr>queue := q\<rparr>)
            | None \<Rightarrow> (PopMiss d, p)))"
| "Pop_step (PopMiss d) p =
     (case guard_enter (wait_count p) of
        (cnt, v) \<Rightarrow> (PopWaitGuarded d v, p\<lparr>wait_count := cnt\<rparr>))"
| "Pop_step (PopWaitGuarded d v) p =
     (if v > max_queue_size (settings p) then
        (Failed (PoolError ''Wait queue size exceeded''),
         (stats_update \<circ> queue_size_errors_update) (\<lambda>n. n + 1)
           (p\<lparr>wait_count := guard_leave (wait_count p)\<rparr>))
      else (case guard_enter (size_counter p) of
              (cnt, sv) \<Rightarrow> (PopSizeGuarded d sv, p\<lparr>size_counter := cnt\<rparr>)))"
| "Pop_step (PopSizeGuarded d sv) p =
     (PopWaiting d,
      if sv \<le> max_size (settings p) then
        (if GetStatsForPeriod kRecentErrorPeriod (now p) (recent_conn_errors p)
              < kRecentErrorThreshold
         then p\<lparr>tasks := tasks p @ [ConnectQueued]\<rparr>
         else p\<lparr>size_counter := guard_leave (size_counter p)\<rparr>)
      else p\<lparr>size_counter := guard_leave (size_counter p)\<rparr>)"
| "Pop_step (PopWaiting d) p =
     (case queue_pop (queue p) of
        Some (c, q) \<Rightarrow>
          Acquire_finish c (p\<lparr>queue := q, wait_count := guard_leave (wait_count p)\<rparr>)
      | None \<Rightarrow>
          (if IsReached d (now p) then
             (Failed (PoolError ''No available connections found''),
              (stats_update \<circ> pool_exhaust_errors_update) (\<lambda>n. n + 1)
                (p\<lparr>wait_count := guard_leave (wait_count p)\<rparr>))
           else (PopWaiting d, p)))"
| "Pop_step (Holding c) p = (Holding c, p)"
| "Pop_step (Failed e) p = (Failed e, p)"
| "Pop_step Released p = (Released, p)"

subsection \<open>Release\<close>

text \<open>
  The guard \<open>dg\<close> decrements the used counter when Release returns, unless it was moved
  into the cleanup task, which then carries it.
\<close>

definition dec_used :: "pool \<Rightarrow> pool" where
  "dec_used p = (stats_update \<circ> connection_update \<circ> used_update) (\<lambda>n. n - 1) p"

definition inc_error_total :: "pool \<Rightarrow> pool" where
  "inc_error_total p = (stats_update \<circ> connection_update \<circ> error_total_update) (\<lambda>n. n + 1) p"

definition Release :: "Connection \<Rightarrow> pool \<Rightarrow> pool" where
  "Release c p =
     (case (if \<not> IsInTransaction (conn_state c)
            then (case GetStatsAndReset c of (cs, c') \<Rightarrow> (c', AccountConnectionStats cs p))
            else (c, p)) of
        (c1, p1) \<Rightarrow>
          if IsIdle (conn_state c1) then dec_used (Push c1 p1)
          else if \<not> IsConnected (conn_state c1)
            then dec_used (DeleteConnection c1 (inc_error_total p1))
          else p1\<lparr>tasks := tasks p1 @ [CleanupQueued c1]\<rparr>)"

text \<open>
  The body of the cleanup task: the call of Cleanup, then what follows its return.
  Cleanup returns, leaving the connection in some state and with some statistics, or
  throws.
\<close>

datatype cleanup_result = CleanupReturns ConnectionState ConnStatistics | CleanupThrows

definition Cleanup_begin :: "Connection \<Rightarrow> pool \<Rightarrow> task \<times> pool" where
  "Cleanup_begin c p =
     (CleanupRunning c,
      p\<lparr>events := events p @ [EvCleanup (conn_id c) (network (default_cmd_ctl p) * 10)]\<rparr>)"

definition Cleanup_end :: "Connection \<Rightarrow> cleanup_result \<Rightarrow> pool \<Rightarrow> pool" where
  "Cleanup_end c r p =
     dec_used
       (case r of
          CleanupReturns s cs \<Rightarrow>
            (if IsIdle s then
               (case GetStatsAndReset (c\<lparr>conn_state := s, conn_stats := cs\<rparr>) of
                  (cs', c') \<Rightarrow> Push c' (AccountConnectionStats cs' p))
             else DeleteConnection (c\<lparr>conn_state := s, conn_stats := cs\<rparr>) (inc_error_total p))
        | CleanupThrows \<Rightarrow> DeleteConnection c (inc_error_total p))"

subsection \<open>Connect\<close>

text \<open>
  How \<^verbatim>\<open>Connection::Connect\<close> ends: with a connection, or with one of the exceptions that
  the Connect task catches, in the order of its handlers.
\<close>

datatype connect_result = Connected | ConnectionTimeoutError | ConnectionError | Error

definition Connect_begin :: "pool \<Rightarrow> task \<times> pool" where
  "Connect_begin p =
     (case (stats_update \<circ> connection_update \<circ> open_total_update) (\<lambda>n. n + 1) p of
        p1 \<Rightarrow>
          (ConnectRunning (open_total (connection (stats p1))) (default_cmd_ctl p1),
           p1\<lparr>events := events p1 @ [EvPhysicalConnect (open_total (connection (stats p1)))]\<rparr>))"

definition inc_drop_total :: "pool \<Rightarrow> pool" where
  "inc_drop_total p = (stats_update \<circ> connection_update \<circ> drop_total_update) (\<lambda>n. n + 1) p"

definition inc_error_timeout :: "pool \<Rightarrow> pool" where
  "inc_error_timeout p =
     (stats_update \<circ> connection_update \<circ> error_timeout_update) (\<lambda>n. n + 1) p"

definition note_recent_error :: "pool \<Rightarrow> pool" where
  "note_recent_error p = p\<lparr>recent_conn_errors := recent_conn_errors p @ [now p]\<rparr>"

definition drop_size_guard :: "pool \<Rightarrow> pool" where
  "drop_size_guard p = p\<lparr>size_counter := guard_leave (size_counter p)\<rparr>"

text \<open>
  The rest of the Connect task, by the outcome of the physical connect. A failed attempt
  leaves the size guard; a new connection keeps it.
\<close>

fun Connect_end :: "Counter \<Rightarrow> CommandControl \<Rightarrow> connect_result \<Rightarrow> pool \<Rightarrow> pool" where
  "Connect_end i ctl ConnectionTimeoutError p =
     drop_size_guard
       (note_recent_error (inc_drop_total (inc_error_total (inc_error_timeout p))))"
| "Connect_end i ctl ConnectionError p =
     drop_size_guard (note_recent_error (inc_drop_total (inc_error_total p)))"
| "Connect_end i ctl Error p =
     drop_size_guard (inc_drop_total (inc_error_total p))"
| "Connect_end i ctl Connected p =
     Push \<lparr>conn_id = i, conn_state = Idle, conn_stats = no_stats, conn_cmd_ctl = ctl\<rparr>
       (p\<lparr>events := events p @ [EvConnected i]\<rparr>)"

subsection \<open>GetStatistics\<close>

definition GetStatistics :: "pool \<Rightarrow> pool" where
  "GetStatistics p =
     (stats_update \<circ> connection_update) (\<lambda>c.
        c\<lparr>active := of_nat (size_counter p), waiting := of_nat (wait_count p),
          maximum := of_nat (max_size (settings p))\<rparr>) p"

subsection \<open>SetDefaultCommandControl\<close>

text \<open>The value is replaced when it differs from the current one.\<close>

definition SetDefaultCommandControl :: "CommandControl \<Rightarrow> pool \<Rightarrow> pool" where
  "SetDefaultCommandControl cmd_ctl p =
     (if default_cmd_ctl p \<noteq> cmd_ctl then p\<lparr>default_cmd_ctl := cmd_ctl\<rparr> else p)"

subsection \<open>The interleaving machine\<close>

text \<open>
  An action is one step of one party: a client calls Acquire, a caller runs its next
  piece of Pop, a holder works on its connection (leaving it in some state with some
  statistics), a holder lets its handle go, a detached task starts, the physical connect
  or the cleanup of a task comes back with a result, time passes, the statistics are read,
  the default command control is set.
  An action that does not apply in a state leaves it as it is.
\<close>

datatype action =
    Call Deadline
  | CallerStep nat
  | Use nat ConnectionState ConnStatistics
  | ReleaseBy nat
  | StartTask nat
  | ConnectEnd nat connect_result
  | CleanupEnd nat cleanup_result
  | Tick nat
  | ReadStatistics
  | SetControl CommandControl

fun step :: "action \<Rightarrow> pool \<Rightarrow> pool" where
  "step (Call d) p = p\<lparr>callers := callers p @ [PopStart d]\<rparr>"
| "step (CallerStep i) p =
     (if i < length (callers p) then
        (case Pop_step (callers p ! i) p of
           (c, p') \<Rightarrow> p'\<lparr>callers := (callers p')[i := c]\<rparr>)
      else p)"
| "step (Use i s cs) p =
     (if i < length (callers p) then
        (case callers p ! i of
           Holding c \<Rightarrow>
             p\<lparr>callers := (callers p)[i := Holding (c\<lparr>conn_state := s, conn_stats := cs\<rparr>)]\<rparr>
         | _ \<Rightarrow> p)
      else p)"
| "step (ReleaseBy i) p =
     (if i < length (callers p) then
        (case callers p ! i of
           Holding c \<Rightarrow> Release c (p\<lparr>callers := (callers p)[i := Released]\<rparr>)
         | _ \<Rightarrow> p)
      else p)"
| "step (StartTask i) p =
     (if i < length (tasks p) then
        (case tasks p ! i of
           ConnectQueued \<Rightarrow>
             (case Connect_begin p of (t, p') \<Rightarrow> p'\<lparr>tasks := (tasks p')[i := t]\<rparr>)
         | CleanupQueued c \<Rightarrow>
             (case Cleanup_begin c p of (t, p') \<Rightarrow> p'\<lparr>tasks := (tasks p')[i := t]\<rparr>)
         | _ \<Rightarrow> p)
      else p)"
| "step (ConnectEnd i r) p =
     (if i < length (tasks p) then
        (case tasks p ! i of
           ConnectRunning n ctl \<Rightarrow> Connect_end n ctl r (p\<lparr>tasks := (tasks p)[i := TaskDone]\<rparr>)
         | _ \<Rightarrow> p)
      else p)"
| "step (CleanupEnd i r) p =
     (if i < length (tasks p) then
        (case tasks p ! i of
           CleanupRunning c \<Rightarrow> Cleanup_end c r (p\<lparr>tasks := (tasks p)[i := TaskDone]\<rparr>)
         | _ \<Rightarrow> p)
      else p)"
| "step (Tick n) p = p\<lparr>now := now p + n\<rparr>"
| "step ReadStatistics p = GetStatistics p"
| "step (SetControl cmd_ctl) p = SetDefaultCommandControl cmd_ctl p"

fun run :: "action list \<Rightarrow> pool \<Rightarrow> pool" where
  "run [] p = p"
| "run (a # as) p = run as (step a p)"

section \<open>Measures of a pool state\<close>

text \<open>
  Who holds what. A task that is not finished holds a connection or the size guard of a
  connection to be; a caller holds a connection between Acquire and Release.
\<close>

fun task_conns :: "task \<Rightarrow> nat" where
  "task_conns TaskDone = 0"
| "task_conns _ = 1"

fun caller_conns :: "caller \<Rightarrow> nat" where
  "caller_conns (Holding c) = 1"
| "caller_conns _ = 0"

text \<open>
  A caller between the constructor of its size guard and the end of the guarded block,
  and whether the value it read lets it start a Connect.
\<close>

fun in_size_block :: "caller \<Rightarrow> nat" where
  "in_size_block (PopSizeGuarded d v) = 1"
| "in_size_block _ = 0"

fun admitted :: "nat \<Rightarrow> caller \<Rightarrow> nat" where
  "admitted m (PopSizeGuarded d v) = (if v \<le> m then 1 else 0)"
| "admitted m _ = 0"

text \<open>
  A caller that holds a wait guard, and whether it is past the check of the wait queue
  or will pass it.
\<close>

fun in_wait_block :: "caller \<Rightarrow> nat" where
  "in_wait_block (PopWaitGuarded d v) = 1"
| "in_wait_block (PopSizeGuarded d v) = 1"
| "in_wait_block (PopWaiting d) = 1"
| "in_wait_block _ = 0"

fun queued :: "nat \<Rightarrow> caller \<Rightarrow> nat" where
  "queued m (PopWaitGuarded d v) = (if v \<le> m then 1 else 0)"
| "queued m (PopSizeGuarded d v) = 1"
| "queued m (PopWaiting d) = 1"
| "queued m _ = 0"

text \<open>
  The connections of the pool: those being established, idle in the queue, checked
  out, or being cleaned up.
\<close>

definition open_connections :: "pool \<Rightarrow> nat" where
  "open_connections p =
     sum_list (map task_conns (tasks p)) + length (items (queue p))
       + sum_list (map caller_conns (callers p))"

definition size_guards_in_pop :: "pool \<Rightarrow> nat" where
  "size_guards_in_pop p = sum_list (map in_size_block (callers p))"

definition waiters :: "pool \<Rightarrow> nat" where
  "waiters p = sum_list (map in_wait_block (callers p))"

text \<open>
  The invariant of the two guarded counters: each counts the guards alive on it, the
  connections and the callers admitted to connect fit in \<open>max_size\<close>, the callers
  admitted to the wait queue fit in \<open>max_queue_size\<close>.
\<close>

definition guards_inv :: "pool \<Rightarrow> bool" where
  "guards_inv p \<longleftrightarrow>
     size_counter p = open_connections p + size_guards_in_pop p \<and>
     open_connections p + sum_list (map (admitted (max_size (settings p))) (callers p))
       \<le> max_size (settings p) \<and>
     wait_count p = waiters p \<and>
     sum_list (map (queued (max_queue_size (settings p))) (callers p))
       \<le> max_queue_size (settings p)"

text \<open>
  The connections that exist or whose physical connect is under way: a Connect task
  counts once it has incremented \<open>open_total\<close>.
\<close>

fun task_established :: "task \<Rightarrow> nat" where
  "task_established ConnectQueued = 0"
| "task_established TaskDone = 0"
| "task_established _ = 1"

definition established :: "pool \<Rightarrow> nat" where
  "established p =
     sum_list (map task_established (tasks p)) + length (items (queue p))
       + sum_list (map caller_conns (callers p))"

definition balance_inv :: "pool \<Rightarrow> bool" where
  "balance_inv p \<longleftrightarrow>
     open_total (connection (stats p)) =
       drop_total (connection (stats p)) + of_nat (established p)"

text \<open>Connect tasks that were triggered and have not started.\<close>

fun connect_pending :: "task \<Rightarrow> nat" where
  "connect_pending ConnectQueued = 1"
| "connect_pending _ = 0"

definition connects_pending :: "pool \<Rightarrow> nat" where
  "connects_pending p = sum_list (map connect_pending (tasks p))"

text \<open>The physical connects that were issued.\<close>

definition physical_connects :: "pool \<Rightarrow> nat" where
  "physical_connects p =
     length (filter (\<lambda>e. case e of EvPhysicalConnect n \<Rightarrow> True | _ \<Rightarrow> False) (events p))"

text \<open>The physical connects that came back with a connection.\<close>

definition connections_created :: "pool \<Rightarrow> nat" where
  "connections_created p =
     length (filter (\<lambda>e. case e of EvConnected n \<Rightarrow> True | _ \<Rightarrow> False) (events p))"

text \<open>The two ways Pop fails after a miss, and how the callers of a state ended.\<close>

definition queue_exceeded :: caller where
  "queue_exceeded = Failed (PoolError ''Wait queue size exceeded'')"

definition pool_exhausted :: caller where
  "pool_exhausted = Failed (PoolError ''No available connections found'')"

definition outcome :: "pool \<Rightarrow> nat \<times> nat \<times> nat" where
  "outcome p =
     (sum_list (map caller_conns (callers p)),
      length (filter (\<lambda>c. c = queue_exceeded) (callers p)),
      length (filter (\<lambda>c. c = pool_exhausted) (callers p)))"

section \<open>Scenarios\<close>

definition demo_ctl :: CommandControl where
  "demo_ctl = \<lparr>network = 500, statement = 250\<rparr>"

text \<open>
  A pool of one connection. The connection is established and checked out; a second
  caller misses the queue and takes its size guard; then the statistics are read.
\<close>

definition tiny_pool :: pool where
  "tiny_pool =
     projr (Create ''host=db'' \<lparr>min_size = 1, max_size = 1, max_queue_size = 1\<rparr> demo_ctl 0)"

definition second_acquire_in_size_block :: "action list" where
  "second_acquire_in_size_block =
     [StartTask 0, ConnectEnd 0 Connected,
      Call 1000, CallerStep 0,
      Call 1000, CallerStep 1, CallerStep 1, CallerStep 1,
      ReadStatistics]"

text \<open>The connection of that pool is checked out, breaks, and is released.\<close>

definition closed_connection_released :: "action list" where
  "closed_connection_released =
     [StartTask 0, ConnectEnd 0 Connected,
      Call 1000, CallerStep 0, Use 0 Disconnected no_stats, ReleaseBy 0]"

text \<open>
  The pool of the nine callers: two connections are established at start, then nine
  clients call Acquire with a deadline of one second; every physical connect succeeds.
\<close>

definition nine_pool :: pool where
  "nine_pool =
     projr (Create ''host=db'' \<lparr>min_size = 2, max_size = 5, max_queue_size = 3\<rparr> demo_ctl 0)"

definition nine_calls :: "action list" where
  "nine_calls =
     [StartTask 0, ConnectEnd 0 Connected, StartTask 1, ConnectEnd 1 Connected,
      Call 1000, Call 1000, Call 1000, Call 1000, Call 1000, Call 1000, Call 1000, Call 1000,
      Call 1000]"

definition new_connections :: "action list" where
  "new_connections =
     [StartTask 2, ConnectEnd 2 Connected, StartTask 3, ConnectEnd 3 Connected,
      StartTask 4, ConnectEnd 4 Connected]"

text \<open>
  Three callers trigger the three new connections and wait; three more arrive while
  these wait; the connections arrive; the last caller comes after that and waits alone
  until its deadline.
\<close>

definition schedule_5_3_1 :: "action list" where
  "schedule_5_3_1 = nine_calls @
     [CallerStep 0, CallerStep 1,
      CallerStep 2, CallerStep 2, CallerStep 2, CallerStep 2,
      CallerStep 3, CallerStep 3, CallerStep 3, CallerStep 3,
      CallerStep 4, CallerStep 4, CallerStep 4, CallerStep 4,
      CallerStep 5, CallerStep 5, CallerStep 5,
      CallerStep 6, CallerStep 6, CallerStep 6,
      CallerStep 7, CallerStep 7, CallerStep 7] @
     new_connections @
     [CallerStep 2, CallerStep 3, CallerStep 4,
      CallerStep 8, CallerStep 8, CallerStep 8, CallerStep 8,
      Tick 1000, CallerStep 8]"

text \<open>The nine callers advance in lockstep.\<close>

definition schedule_5_4_0 :: "action list" where
  "schedule_5_4_0 = nine_calls @
     [CallerStep 0, CallerStep 1, CallerStep 2, CallerStep 3, CallerStep 4, CallerStep 5,
      CallerStep 6, CallerStep 7, CallerStep 8,
      CallerStep 2, CallerStep 3, CallerStep 4, CallerStep 5, CallerStep 6, CallerStep 7,
      CallerStep 8,
      CallerStep 2, CallerStep 3, CallerStep 4, CallerStep 5, CallerStep 6, CallerStep 7,
      CallerStep 8,
      CallerStep 2, CallerStep 3, CallerStep 4] @
     new_connections @
     [CallerStep 2, CallerStep 3, CallerStep 4, Tick 1000]"

text \<open>Five callers are served first; the other four then arrive together.\<close>

definition schedule_5_1_3 :: "action list" where
  "schedule_5_1_3 = nine_calls @
     [CallerStep 0, CallerStep 1,
      CallerStep 2, CallerStep 2, CallerStep 2, CallerStep 2,
      CallerStep 3, CallerStep 3, CallerStep 3, CallerStep 3,
      CallerStep 4, CallerStep 4, CallerStep 4, CallerStep 4] @
     new_connections @
     [CallerStep 2, CallerStep 3, CallerStep 4,
      CallerStep 5, CallerStep 6, CallerStep 7, CallerStep 8,
      CallerStep 5, CallerStep 6, CallerStep 7, CallerStep 8,
      CallerStep 5, CallerStep 6, CallerStep 7, CallerStep 8,
      CallerStep 5, CallerStep 6, CallerStep 7,
      Tick 1000,
      CallerStep 5, CallerStep 6, CallerStep 7]"

text \<open>An idle connection that is not in the pool yet.\<close>

definition demo_conn :: Connection where
  "demo_conn = \<lparr>conn_id = 7, conn_state = Idle, conn_stats = no_stats, conn_cmd_ctl = demo_ctl\<rparr>"




text \<open>
  Both connects of the start fail, at time 0; a caller misses the queue and takes its
  guards. Then 15 seconds pass.
\<close>

definition breaker_open_pool :: pool where
  "breaker_open_pool =
     run [StartTask 0, ConnectEnd 0 ConnectionTimeoutError,
          StartTask 1, ConnectEnd 1 ConnectionError,
          Call 1000, CallerStep 0, CallerStep 0, CallerStep 0] nine_pool"

definition breaker_aged_pool :: pool where
  "breaker_aged_pool = step (Tick 15000) breaker_open_pool"

text \<open>
  The first connect of the start fails; a caller misses the queue and, with one failure
  recorded, triggers a Connect; then the second connect of the start fails.
\<close>

definition late_connect_pool :: pool where
  "late_connect_pool =
     run [StartTask 0, ConnectEnd 0 ConnectionError,
          Call 1000, CallerStep 0, CallerStep 0, CallerStep 0, CallerStep 0,
          StartTask 1, ConnectEnd 1 ConnectionTimeoutError] nine_pool"

text \<open>
  The holder of the only connection leaves it busy, after one transaction that was
  committed.
\<close>

definition busy_stats :: ConnStatistics where
  "busy_stats = no_stats\<lparr>conn_trx_total := 1, conn_commit_total := 1\<rparr>"

definition dirty_conn :: Connection where
  "dirty_conn =
     \<lparr>conn_id = 1, conn_state = BusyDirty, conn_stats = busy_stats, conn_cmd_ctl = demo_ctl\<rparr>"

definition dirty_holder :: pool where
  "dirty_holder =
     run [StartTask 0, ConnectEnd 0 Connected,
          Call 1000, CallerStep 0, Use 0 BusyDirty busy_stats] tiny_pool"

text \<open>
  A network timeout so long that 10 times it does not fit in 64 bits; it is set while
  the busy connection is held, then the connection is released and its cleanup starts.
\<close>

definition huge_ctl :: CommandControl where
  "huge_ctl = \<lparr>network = 922337203685477581, statement = 250\<rparr>"

definition cleanup_with_huge_timeout :: "action list" where
  "cleanup_with_huge_timeout = [SetControl huge_ctl, ReleaseBy 0, StartTask 1]"

text \<open>The holder of the only connection has left it idle.\<close>

definition idle_holder :: pool where
  "idle_holder =
     run [StartTask 0, ConnectEnd 0 Connected, Call 1000, CallerStep 0] tiny_pool"

text \<open>In the pool of the nine callers, the third caller has taken its size guard.\<close>

definition third_caller_at_size_guard :: "action list" where
  "third_caller_at_size_guard = nine_calls @
     [CallerStep 0, CallerStep 1, CallerStep 2, CallerStep 2, CallerStep 2]"

section \<open>Invariants\<close>

lemmas guard_defs = guard_enter_def guard_leave_def

lemmas inv_defs = guards_inv_def open_connections_def size_guards_in_pop_def waiters_def

lemma sum_list_map_update:
  fixes f :: "'a \<Rightarrow> nat"
  shows "i < length xs \<Longrightarrow>
    sum_list (map f (xs[i := y])) + f (xs ! i) = sum_list (map f xs) + f y"
proof (induction xs arbitrary: i)
  case Nil
  then show ?case by simp
next
  case (Cons x xs)
  show ?case
  proof (cases i)
    case 0
    then show ?thesis by simp
  next
    case (Suc j)
    with Cons.prems have "j < length xs" by simp
    from Cons.IH [OF this] Suc show ?thesis by simp
  qed
qed

lemma admitted_le_in_size_block:
  "sum_list (map (admitted m) xs) \<le> sum_list (map in_size_block xs)"
proof (induction xs)
  case Nil
  show ?case by simp
next
  case (Cons x xs)
  have "admitted m x \<le> in_size_block x" by (cases x) simp_all
  with Cons show ?case by simp
qed

lemma queued_le_in_wait_block:
  "sum_list (map (queued m) xs) \<le> sum_list (map in_wait_block xs)"
proof (induction xs)
  case Nil
  show ?case by simp
next
  case (Cons x xs)
  have "queued m x \<le> in_wait_block x" by (cases x) simp_all
  with Cons show ?case by simp
qed

lemma spawn_connects_frame:
  "tasks (spawn_connects n p) = tasks p @ replicate n ConnectQueued \<and>
   size_counter (spawn_connects n p) = size_counter p + n \<and>
   callers (spawn_connects n p) = callers p \<and>
   queue (spawn_connects n p) = queue p \<and>
   events (spawn_connects n p) = events p \<and>
   wait_count (spawn_connects n p) = wait_count p \<and>
   settings (spawn_connects n p) = settings p \<and>
   stats (spawn_connects n p) = stats p"
proof (induction n arbitrary: p)
  case 0
  show ?case by simp
next
  case (Suc n)
  show ?case
    by (simp add: Suc.IH spawn_connect_def guard_enter_def replicate_app_Cons_same)
qed

lemma queue_pop_items:
  "queue_pop q = Some (c, q') \<Longrightarrow> items q = c # items q' \<and> capacity q' = capacity q"
  by (auto simp: queue_pop_def split: list.splits)

lemma guards_inv_caller:
  assumes inv: "guards_inv p" and i: "i < length (callers p)"
  shows "guards_inv (step (CallerStep i) p)"
proof -
  note upd = sum_list_map_update [OF i, of caller_conns]
    sum_list_map_update [OF i, of in_size_block]
    sum_list_map_update [OF i, of "admitted (max_size (settings p))"]
    sum_list_map_update [OF i, of in_wait_block]
    sum_list_map_update [OF i, of "queued (max_queue_size (settings p))"]
  show ?thesis
  proof (cases "callers p ! i")
    case (PopStart d)
    show ?thesis
    proof (cases "queue_pop (queue p)")
      case None
      with inv i PopStart upd [of "PopMiss d"] upd [of "Failed (PoolError ''Deadline reached before trying to get a connection'')"] show ?thesis
        by (auto simp: inv_defs guard_defs)
    next
      case (Some a)
      obtain c q where a: "a = (c, q)" by (cases a)
      from Some a have "items (queue p) = c # items q" by (simp add: queue_pop_items)
      with inv i PopStart Some a upd [of "Holding (c\<lparr>conn_cmd_ctl := default_cmd_ctl p\<rparr>)"] upd [of "Failed (PoolError ''Deadline reached before trying to get a connection'')"] show ?thesis
        by (auto simp: inv_defs guard_defs Acquire_finish_def)
    qed
  next
    case (PopMiss d)
    with inv i queued_le_in_wait_block [of "max_queue_size (settings p)" "callers p"] upd [of "PopWaitGuarded d (Suc (wait_count p))"] show ?thesis
      by (auto simp: inv_defs guard_defs)
  next
    case (PopWaitGuarded d v)
    with inv i admitted_le_in_size_block [of "max_size (settings p)" "callers p"]
      queued_le_in_wait_block [of "max_queue_size (settings p)" "callers p"] upd [of "PopSizeGuarded d (Suc (size_counter p))"] upd [of "Failed (PoolError ''Wait queue size exceeded'')"] show ?thesis
      by (auto simp: inv_defs guard_defs)
  next
    case (PopSizeGuarded d v)
    with inv i upd [of "PopWaiting d"] show ?thesis
      by (auto simp: inv_defs guard_defs)
  next
    case (PopWaiting d)
    show ?thesis
    proof (cases "queue_pop (queue p)")
      case None
      with inv i PopWaiting upd [of "PopWaiting d"] upd [of "Failed (PoolError ''No available connections found'')"] show ?thesis
        by (auto simp: inv_defs guard_defs)
    next
      case (Some a)
      obtain c q where a: "a = (c, q)" by (cases a)
      from Some a have "items (queue p) = c # items q" by (simp add: queue_pop_items)
      with inv i PopWaiting Some a upd [of "Holding (c\<lparr>conn_cmd_ctl := default_cmd_ctl p\<rparr>)"] show ?thesis
        by (auto simp: inv_defs guard_defs Acquire_finish_def)
    qed
  next
    case (Holding c)
    with inv i upd [of "Holding c"] show ?thesis by (simp add: inv_defs guard_defs)
  next
    case (Failed e)
    with inv i upd [of "Failed e"] show ?thesis by (simp add: inv_defs guard_defs)
  next
    case Released
    with inv i upd [of Released] show ?thesis by (simp add: inv_defs guard_defs)
  qed
qed

lemmas op_defs = Push_def queue_push_def DeleteConnection_def AccountConnectionStats_def
  GetStatsAndReset_def dec_used_def inc_error_total_def inc_drop_total_def
  inc_error_timeout_def note_recent_error_def drop_size_guard_def Release_def
  Cleanup_begin_def Cleanup_end_def Connect_begin_def GetStatistics_def
  SetDefaultCommandControl_def

lemma guards_inv_holder:
  assumes inv: "guards_inv p" and i: "i < length (callers p)" and h: "callers p ! i = Holding c"
  shows "guards_inv (step (Use i s cs) p)" and "guards_inv (step (ReleaseBy i) p)"
proof -
  note upd = sum_list_map_update [OF i, of caller_conns]
    sum_list_map_update [OF i, of in_size_block]
    sum_list_map_update [OF i, of "admitted (max_size (settings p))"]
    sum_list_map_update [OF i, of in_wait_block]
    sum_list_map_update [OF i, of "queued (max_queue_size (settings p))"]
  from inv i h upd [of "Holding (c\<lparr>conn_state := s, conn_stats := cs\<rparr>)"]
  show "guards_inv (step (Use i s cs) p)"
    by (simp add: inv_defs)
  from inv i h upd [of Released]
  show "guards_inv (step (ReleaseBy i) p)"
    by (cases "conn_state c") (auto simp: inv_defs guard_defs op_defs IsIdle_def IsConnected_def IsInTransaction_def)
qed

lemma guards_inv_task:
  assumes inv: "guards_inv p" and i: "i < length (tasks p)"
  shows "guards_inv (step (StartTask i) p)"
    and "guards_inv (step (ConnectEnd i r) p)"
    and "guards_inv (step (CleanupEnd i r') p)"
proof -
  note upd = sum_list_map_update [OF i, of task_conns]
  show "guards_inv (step (StartTask i) p)"
  proof (cases "tasks p ! i")
    case ConnectQueued
    with inv i upd [of "ConnectRunning (open_total (connection (stats p)) + 1) (default_cmd_ctl p)"]
    show ?thesis by (simp add: inv_defs op_defs)
  next
    case (CleanupQueued c)
    with inv i upd [of "CleanupRunning c"]
    show ?thesis by (simp add: inv_defs op_defs)
  qed (use inv i in simp_all)
  show "guards_inv (step (ConnectEnd i r) p)"
  proof (cases "tasks p ! i")
    case (ConnectRunning n ctl)
    with inv i upd [of TaskDone]
    show ?thesis by (cases r) (auto simp: inv_defs guard_defs op_defs)
  qed (use inv i in simp_all)
  show "guards_inv (step (CleanupEnd i r') p)"
  proof (cases "tasks p ! i")
    case (CleanupRunning c)
    with inv i upd [of TaskDone]
    show ?thesis
      by (cases r') (auto simp: inv_defs guard_defs op_defs IsIdle_def)
  qed (use inv i in simp_all)
qed

lemma guards_inv_step: "guards_inv p \<Longrightarrow> guards_inv (step a p)"
proof (cases a)
  case (Call d)
  assume "guards_inv p"
  with Call show ?thesis by (simp add: inv_defs)
next
  case (CallerStep i)
  assume "guards_inv p"
  with CallerStep guards_inv_caller [of p i] show ?thesis
    by (cases "i < length (callers p)") simp_all
next
  case (Use i s cs)
  assume inv: "guards_inv p"
  show ?thesis
  proof (cases "i < length (callers p)")
    case True
    show ?thesis
    proof (cases "callers p ! i")
      case (Holding c)
      from guards_inv_holder(1) [OF inv True Holding] Use show ?thesis by simp
    qed (use inv Use True in simp_all)
  qed (use inv Use in simp)
next
  case (ReleaseBy i)
  assume inv: "guards_inv p"
  show ?thesis
  proof (cases "i < length (callers p)")
    case True
    show ?thesis
    proof (cases "callers p ! i")
      case (Holding c)
      from guards_inv_holder(2) [OF inv True Holding] ReleaseBy show ?thesis by simp
    qed (use inv ReleaseBy True in simp_all)
  qed (use inv ReleaseBy in simp)
next
  case (StartTask i)
  assume inv: "guards_inv p"
  with StartTask guards_inv_task(1) [of p i] show ?thesis
    by (cases "i < length (tasks p)") simp_all
next
  case (ConnectEnd i r)
  assume inv: "guards_inv p"
  with ConnectEnd guards_inv_task(2) [of p i r] show ?thesis
    by (cases "i < length (tasks p)") simp_all
next
  case (CleanupEnd i r)
  assume inv: "guards_inv p"
  with CleanupEnd guards_inv_task(3) [of p i r] show ?thesis
    by (cases "i < length (tasks p)") simp_all
next
  case (Tick n)
  assume "guards_inv p"
  with Tick show ?thesis by (simp add: inv_defs)
next
  case ReadStatistics
  assume "guards_inv p"
  with ReadStatistics show ?thesis by (simp add: inv_defs op_defs)
next
  case (SetControl ctl)
  assume "guards_inv p"
  with SetControl show ?thesis by (simp add: inv_defs op_defs)
qed

lemma guards_inv_run: "guards_inv p \<Longrightarrow> guards_inv (run sched p)"
  by (induction sched arbitrary: p) (simp_all add: guards_inv_step)

lemma guards_inv_Create:
  assumes "Create d s c t = Inr p"
  shows "guards_inv p"
proof -
  from assms have le: "min_size s \<le> max_size s"
    and p: "p = StartPingTask (spawn_connects (min_size s) (ConnectionPoolImpl d s c t))"
    by (auto simp: Create_def Init_def ConnectionPoolImpl_def split: if_splits)
  have "sum_list (map task_conns (replicate n ConnectQueued)) = n" for n
    by (induction n) simp_all
  with le show ?thesis
    by (simp add: p inv_defs StartPingTask_def spawn_connects_frame ConnectionPoolImpl_def)
qed

lemma of_nat_sum_update:
  fixes f :: "'a \<Rightarrow> nat"
  assumes "i < length xs"
  shows "(of_nat (sum_list (map f (xs[i := y]))) :: 'b::len word) =
           of_nat (sum_list (map f xs)) + of_nat (f y) - of_nat (f (xs ! i))"
proof -
  have "(of_nat (sum_list (map f (xs[i := y])) + f (xs ! i)) :: 'b word) =
          of_nat (sum_list (map f xs) + f y)"
    using sum_list_map_update [OF assms, of f y] by simp
  then show ?thesis by (simp add: algebra_simps)
qed

lemma balance_inv_step: "balance_inv p \<Longrightarrow> balance_inv (step a p)"
proof (cases a)
  case (Call d)
  assume "balance_inv p"
  with Call show ?thesis by (simp add: balance_inv_def established_def)
next
  case (CallerStep i)
  assume inv: "balance_inv p"
  show ?thesis
  proof (cases "i < length (callers p)")
    case True
    show ?thesis
    proof (cases "callers p ! i")
      case (PopStart d)
      with inv True CallerStep show ?thesis
        by (auto simp: balance_inv_def established_def of_nat_sum_update Acquire_finish_def
            dest!: queue_pop_items split: option.splits)
    next
      case (PopWaiting d)
      with inv True CallerStep show ?thesis
        by (auto simp: balance_inv_def established_def of_nat_sum_update Acquire_finish_def
            dest!: queue_pop_items split: option.splits)
    qed (use inv True CallerStep in
        \<open>auto simp: balance_inv_def established_def of_nat_sum_update guard_defs\<close>)
  qed (use inv CallerStep in simp)
next
  case (Use i s cs)
  assume inv: "balance_inv p"
  with Use show ?thesis
    by (auto simp: balance_inv_def established_def of_nat_sum_update split: caller.splits)
next
  case (ReleaseBy i)
  assume inv: "balance_inv p"
  show ?thesis
  proof (cases "i < length (callers p)")
    case True
    show ?thesis
    proof (cases "callers p ! i")
      case (Holding c)
      with inv True ReleaseBy show ?thesis
        by (cases "conn_state c")
          (auto simp: balance_inv_def established_def of_nat_sum_update op_defs
            IsIdle_def IsConnected_def IsInTransaction_def)
    qed (use inv ReleaseBy True in simp_all)
  qed (use inv ReleaseBy in simp)
next
  case (StartTask i)
  assume inv: "balance_inv p"
  with StartTask show ?thesis
    by (auto simp: balance_inv_def established_def of_nat_sum_update op_defs split: task.splits)
next
  case (ConnectEnd i r)
  assume inv: "balance_inv p"
  with ConnectEnd show ?thesis
    by (cases r)
      (auto simp: balance_inv_def established_def of_nat_sum_update op_defs split: task.splits)
next
  case (CleanupEnd i r)
  assume inv: "balance_inv p"
  with CleanupEnd show ?thesis
    by (cases r)
      (auto simp: balance_inv_def established_def of_nat_sum_update op_defs IsIdle_def
        split: task.splits)
next
  case (Tick n)
  assume "balance_inv p"
  with Tick show ?thesis by (simp add: balance_inv_def established_def)
next
  case ReadStatistics
  assume "balance_inv p"
  with ReadStatistics show ?thesis by (simp add: balance_inv_def established_def op_defs)
next
  case (SetControl ctl)
  assume "balance_inv p"
  with SetControl show ?thesis by (simp add: balance_inv_def established_def op_defs)
qed

lemmas run_defs = Create_def Init_def ConnectionPoolImpl_def StartPingTask_def spawn_connect_def
  guard_defs op_defs Acquire_finish_def queue_pop_def IsReached_def GetStatsForPeriod_def
  kRecentErrorPeriod_def kRecentErrorThreshold_def IsIdle_def IsConnected_def IsInTransaction_def
  no_stats_def

lemma settings_step: "settings (step a p) = settings p"
proof (cases a)
  case (CallerStep i)
  show ?thesis
  proof (cases "i < length (callers p)")
    case True
    then show ?thesis unfolding CallerStep
      by (cases "callers p ! i")
        (auto simp: guard_defs Acquire_finish_def split: option.splits)
  qed (simp add: CallerStep)
next
  case (ReleaseBy i)
  then show ?thesis
    by (auto simp: op_defs split: caller.splits)
next
  case (StartTask i)
  then show ?thesis by (auto simp: op_defs split: task.splits)
next
  case (ConnectEnd i r)
  then show ?thesis by (cases r) (auto simp: op_defs split: task.splits)
next
  case (CleanupEnd i r)
  then show ?thesis by (cases r) (auto simp: op_defs split: task.splits)
qed (auto simp: op_defs split: caller.splits)

lemma settings_run: "settings (run sched p) = settings p"
  by (induction sched arbitrary: p) (simp_all add: settings_step)







lemma tasks_Release:
  "sum_list (map connect_pending (tasks (Release c p))) = sum_list (map connect_pending (tasks p))"
  by (simp add: op_defs)

lemma tasks_Pop_step:
  "sum_list (map connect_pending (tasks (snd (Pop_step c p)))) =
     sum_list (map connect_pending (tasks p)) +
       (case c of
          PopSizeGuarded d v \<Rightarrow>
            if v \<le> max_size (settings p) \<and>
               GetStatsForPeriod kRecentErrorPeriod (now p) (recent_conn_errors p)
                 < kRecentErrorThreshold
            then 1 else 0
        | _ \<Rightarrow> 0)"
  by (cases c) (auto simp: guard_defs Acquire_finish_def split: option.splits)

lemma breaker_step:
  assumes "kRecentErrorThreshold \<le>
    GetStatsForPeriod kRecentErrorPeriod (now p) (recent_conn_errors p)"
  shows "connects_pending (step a p) \<le> connects_pending p"
proof (cases a)
  case (CallerStep i)
  show ?thesis
  proof (cases "i < length (callers p)")
    case True
    obtain c' p' where s: "Pop_step (callers p ! i) p = (c', p')"
      by (cases "Pop_step (callers p ! i) p")
    with tasks_Pop_step [of "callers p ! i" p] assms CallerStep True show ?thesis
      by (simp add: connects_pending_def split: caller.splits)
  qed (simp add: CallerStep)
next
  case (ReleaseBy i)
  then show ?thesis
    by (auto simp: connects_pending_def tasks_Release split: caller.splits)
next
  case (StartTask i)
  show ?thesis
  proof (cases "i < length (tasks p)")
    case True
    note upd = sum_list_map_update [OF True, of connect_pending]
    from StartTask True upd [of "ConnectRunning (open_total (connection (stats p)) + 1) (default_cmd_ctl p)"]
    show ?thesis
      by (cases "tasks p ! i")
        (use upd [of "CleanupRunning c" for c] in \<open>auto simp: connects_pending_def op_defs\<close>)
  qed (simp add: StartTask)
next
  case (ConnectEnd i r)
  show ?thesis
  proof (cases "i < length (tasks p)")
    case True
    from ConnectEnd True sum_list_map_update [OF True, of connect_pending TaskDone]
    show ?thesis
      by (cases "tasks p ! i"; cases r) (auto simp: connects_pending_def op_defs)
  qed (simp add: ConnectEnd)
next
  case (CleanupEnd i r)
  show ?thesis
  proof (cases "i < length (tasks p)")
    case True
    from CleanupEnd True sum_list_map_update [OF True, of connect_pending TaskDone]
    show ?thesis
      by (cases "tasks p ! i"; cases r) (auto simp: connects_pending_def op_defs)
  qed (simp add: CleanupEnd)
qed (auto simp: connects_pending_def op_defs split: caller.splits)

lemma spawn_connects_numeral:
  "spawn_connects (numeral k) p = spawn_connects (pred_numeral k) (spawn_connect p)"
  by (simp add: numeral_eq_Suc)

lemmas eval_defs = run_defs spawn_connects_numeral demo_ctl_def queue_exceeded_def
  pool_exhausted_def

section \<open>Construction, Push and the deadline check\<close>

text \<open>
  Claim C8. Construction fails with InvalidConfig exactly when the DSN is empty or
  \<open>min_size\<close> exceeds \<open>max_size\<close>: Init throws before it does anything else, so there is
  nothing to retry. Otherwise the pool exists, \<open>min_size\<close> Connect tasks have been
  started, each holding a size guard, with nothing else done yet but starting the ping task.
\<close>

theorem Create_config:
  "(if d = [] \<or> max_size s < min_size s
    then (\<exists>m. Create d s c t = Inl (InvalidConfig m))
    else (\<exists>p. Create d s c t = Inr p \<and>
            tasks p = replicate (min_size s) ConnectQueued \<and>
            size_counter p = min_size s \<and>
            events p = [EvStartPingTask] \<and>
            callers p = [] \<and> items (queue p) = [] \<and> capacity (queue p) = max_size s))"
  by (simp add: Create_def Init_def ConnectionPoolImpl_def StartPingTask_def
      spawn_connects_frame)

theorem Create_config_witness:
  "(\<exists>m. Create [] \<lparr>min_size = 2, max_size = 5, max_queue_size = 3\<rparr> demo_ctl 0
          = Inl (InvalidConfig m)) \<and>
   (\<exists>m. Create ''host=db'' \<lparr>min_size = 6, max_size = 5, max_queue_size = 3\<rparr> demo_ctl 0
          = Inl (InvalidConfig m)) \<and>
   (\<exists>p. Create ''host=db'' \<lparr>min_size = 2, max_size = 5, max_queue_size = 3\<rparr> demo_ctl 0
          = Inr p \<and>
        tasks p = replicate 2 ConnectQueued \<and> size_counter p = 2)"
  using Create_config [of "[]" "\<lparr>min_size = 2, max_size = 5, max_queue_size = 3\<rparr>" demo_ctl 0]
    Create_config [of "''host=db''" "\<lparr>min_size = 6, max_size = 5, max_queue_size = 3\<rparr>"
      demo_ctl 0]
    Create_config [of "''host=db''" "\<lparr>min_size = 2, max_size = 5, max_queue_size = 3\<rparr>"
      demo_ctl 0]
  by auto

text \<open>
  Claim C7. Push puts the connection at the end of the idle queue and notifies one
  waiter when the queue has room. When the queue is at capacity the connection is
  destroyed, which gives back its size guard, and \<open>drop_total\<close> is incremented; the queue
  is left as it was and never holds more than its capacity. Release of an idle
  connection and a successful Connect both end in Push.
\<close>

theorem Push_bounded:
  "(length (items (queue p)) < capacity (queue p) \<longrightarrow>
      items (queue (Push c p)) = items (queue p) @ [c] \<and>
      events (Push c p) = events p @ [EvNotifyOne] \<and>
      stats (Push c p) = stats p \<and>
      size_counter (Push c p) = size_counter p) \<and>
   (\<not> length (items (queue p)) < capacity (queue p) \<longrightarrow>
      queue (Push c p) = queue p \<and>
      events (Push c p) = events p @ [EvDelete (conn_id c)] \<and>
      drop_total (connection (stats (Push c p))) = drop_total (connection (stats p)) + 1 \<and>
      size_counter (Push c p) = size_counter p - 1) \<and>
   capacity (queue (Push c p)) = capacity (queue p) \<and>
   (length (items (queue p)) \<le> capacity (queue p) \<longrightarrow>
      length (items (queue (Push c p))) \<le> capacity (queue (Push c p))) \<and>
   (IsIdle (conn_state c) \<longrightarrow>
      Release c p =
        dec_used (Push (c\<lparr>conn_stats := no_stats\<rparr>) (AccountConnectionStats (conn_stats c) p))) \<and>
   Connect_end n ctl Connected p =
     Push \<lparr>conn_id = n, conn_state = Idle, conn_stats = no_stats, conn_cmd_ctl = ctl\<rparr>
       (p\<lparr>events := events p @ [EvConnected n]\<rparr>)"
  by (simp add: Push_def queue_push_def DeleteConnection_def guard_leave_def Release_def
      GetStatsAndReset_def IsIdle_def IsInTransaction_def)

theorem Push_bounded_witness:
  "length (items (queue tiny_pool)) < capacity (queue tiny_pool) \<and>
   items (queue (Push demo_conn tiny_pool)) = [demo_conn] \<and>
   events (Push demo_conn tiny_pool) = [EvStartPingTask, EvNotifyOne] \<and>
   \<not> length (items (queue (Push demo_conn tiny_pool)))
       < capacity (queue (Push demo_conn tiny_pool)) \<and>
   items (queue (Push demo_conn (Push demo_conn tiny_pool))) = [demo_conn] \<and>
   events (Push demo_conn (Push demo_conn tiny_pool))
     = [EvStartPingTask, EvNotifyOne, EvDelete 7] \<and>
   drop_total (connection (stats (Push demo_conn (Push demo_conn tiny_pool)))) = 1 \<and>
   IsIdle (conn_state demo_conn)"
proof -
  have e: "items (queue tiny_pool) = []" "capacity (queue tiny_pool) = 1"
    "events tiny_pool = [EvStartPingTask]" "drop_total (connection (stats tiny_pool)) = 0"
    "conn_id demo_conn = 7" "IsIdle (conn_state demo_conn)"
    by (simp_all add: tiny_pool_def demo_conn_def eval_defs)
  note a = Push_bounded [of tiny_pool demo_conn 0 demo_ctl]
  from a e have 1: "items (queue (Push demo_conn tiny_pool)) = [demo_conn]"
    and 2: "events (Push demo_conn tiny_pool) = [EvStartPingTask, EvNotifyOne]"
    and 3: "capacity (queue (Push demo_conn tiny_pool)) = 1"
    and 4: "drop_total (connection (stats (Push demo_conn tiny_pool))) = 0"
    by simp_all
  note b = Push_bounded [of "Push demo_conn tiny_pool" demo_conn 0 demo_ctl]
  from b 1 2 3 4 e show ?thesis by simp
qed

text \<open>
  Claim C4. An Acquire whose deadline is already reached when it is called fails in its
  first step with the deadline error: the caller ends with PoolError, \<open>error_timeout\<close>
  is incremented, and nothing else in the pool changes, so the idle queue is not popped,
  no guard is taken and no Connect task is started.
\<close>

theorem Pop_deadline_reached:
  assumes "IsReached d (now p)"
  shows "run [Call d, CallerStep (length (callers p))] p =
      (stats_update \<circ> connection_update \<circ> error_timeout_update) (\<lambda>n. n + 1)
        (p\<lparr>callers := callers p @
            [Failed (PoolError ''Deadline reached before trying to get a connection'')]\<rparr>) \<and>
    queue (run [Call d, CallerStep (length (callers p))] p) = queue p \<and>
    tasks (run [Call d, CallerStep (length (callers p))] p) = tasks p \<and>
    events (run [Call d, CallerStep (length (callers p))] p) = events p \<and>
    size_counter (run [Call d, CallerStep (length (callers p))] p) = size_counter p \<and>
    wait_count (run [Call d, CallerStep (length (callers p))] p) = wait_count p"
  using assms by simp

theorem Pop_deadline_reached_witness:
  "IsReached 0 (now tiny_pool) \<and>
   callers (run [Call 0, CallerStep (length (callers tiny_pool))] tiny_pool) =
     [Failed (PoolError ''Deadline reached before trying to get a connection'')] \<and>
   tasks (run [Call 0, CallerStep (length (callers tiny_pool))] tiny_pool) = [ConnectQueued] \<and>
   events (run [Call 0, CallerStep (length (callers tiny_pool))] tiny_pool)
     = [EvStartPingTask]"
proof -
  have e: "IsReached 0 (now tiny_pool)" "callers tiny_pool = []"
    "tasks tiny_pool = [ConnectQueued]" "events tiny_pool = [EvStartPingTask]"
    by (simp_all add: tiny_pool_def eval_defs)
  from Pop_deadline_reached [OF e(1)] e show ?thesis by simp
qed

section \<open>The wait queue\<close>




section \<open>The circuit breaker\<close>

lemma physical_Pop_step: "events (snd (Pop_step c p)) = events p"
  by (cases c) (auto simp: guard_defs Acquire_finish_def split: option.splits)

lemma physical_step:
  "physical_connects (step a p) = physical_connects p +
     (case a of
        StartTask j \<Rightarrow> if j < length (tasks p) \<and> tasks p ! j = ConnectQueued then 1 else 0
      | _ \<Rightarrow> 0)"
proof (cases a)
  case (CallerStep i)
  show ?thesis
  proof (cases "i < length (callers p)")
    case True
    obtain c' p' where s: "Pop_step (callers p ! i) p = (c', p')"
      by (cases "Pop_step (callers p ! i) p")
    with physical_Pop_step [of "callers p ! i" p] CallerStep True show ?thesis
      by (simp add: physical_connects_def)
  qed (simp add: CallerStep)
next
  case (ReleaseBy i)
  then show ?thesis
    by (auto simp: physical_connects_def op_defs split: caller.splits)
next
  case (StartTask j)
  then show ?thesis
    by (auto simp: physical_connects_def op_defs split: task.splits)
next
  case (ConnectEnd j r)
  then show ?thesis
    by (cases r) (auto simp: physical_connects_def op_defs split: task.splits)
next
  case (CleanupEnd j r)
  then show ?thesis
    by (cases r) (auto simp: physical_connects_def op_defs split: task.splits)
qed (auto simp: physical_connects_def op_defs split: caller.splits)

lemma pending_start:
  assumes "j < length (tasks p)" and "tasks p ! j = ConnectQueued"
  shows "connects_pending (step (StartTask j) p) + 1 = connects_pending p"
  using assms sum_list_map_update [OF assms(1), of connect_pending
      "ConnectRunning (open_total (connection (stats p)) + 1) (default_cmd_ctl p)"]
  by (simp add: connects_pending_def op_defs)

lemma breaker_physical_step:
  assumes "kRecentErrorThreshold \<le>
    GetStatsForPeriod kRecentErrorPeriod (now p) (recent_conn_errors p)"
  shows "physical_connects (step a p) + connects_pending (step a p)
    \<le> physical_connects p + connects_pending p"
proof (cases "\<exists>j. a = StartTask j \<and> j < length (tasks p) \<and> tasks p ! j = ConnectQueued")
  case True
  then obtain j where j: "a = StartTask j" "j < length (tasks p)" "tasks p ! j = ConnectQueued"
    by blast
  from pending_start [OF j(2,3)] physical_step [of a p] j show ?thesis by simp
next
  case False
  with physical_step [of a p] have "physical_connects (step a p) = physical_connects p"
    by (cases a) auto
  with breaker_step [OF assms, of a] show ?thesis by simp
qed

lemma recorded_failures:
  assumes "j < length (tasks p)" and "tasks p ! j = ConnectRunning n ctl"
  shows "recent_conn_errors (step (ConnectEnd j r) p) =
    (if r = ConnectionTimeoutError \<or> r = ConnectionError
     then recent_conn_errors p @ [now p] else recent_conn_errors p)"
  using assms by (cases r) (simp_all add: op_defs)

text \<open>
  Claim C5, as stated. The failures are looked at when Pop triggers a Connect, not when
  the Connect task issues its physical connect. A caller triggers a Connect while one
  failure is recorded; a second failure is recorded before the task starts; the task
  then issues its physical connect with 2 failures within the window.
\<close>

theorem physical_connect_after_threshold:
  "Create ''host=db'' \<lparr>min_size = 2, max_size = 5, max_queue_size = 3\<rparr> demo_ctl 0
     = Inr nine_pool \<and>
   recent_conn_errors late_connect_pool = [0, 0] \<and> now late_connect_pool = 0 \<and>
   GetStatsForPeriod kRecentErrorPeriod (now late_connect_pool)
     (recent_conn_errors late_connect_pool) = 2 \<and>
   kRecentErrorThreshold = 2 \<and>
   tasks late_connect_pool ! 2 = ConnectQueued \<and>
   events (step (StartTask 2) late_connect_pool)
     = events late_connect_pool @ [EvPhysicalConnect 3] \<and>
   physical_connects (step (StartTask 2) late_connect_pool)
     = physical_connects late_connect_pool + 1"
  by (simp add: late_connect_pool_def nine_pool_def physical_connects_def eval_defs)

text \<open>
  Claim C5, amended. The error window is 15 seconds and the threshold is 2; a connect
  that ends with a timeout or a connection error is recorded in the window, at the time
  it ends. A caller that has taken its size guard triggers a Connect exactly when the
  value of the guard is at most \<open>max_size\<close> and fewer than 2 failures are recorded within
  the window; otherwise it gives the guard back and goes on to wait. While 2 or more
  failures are within the window, no step of any party triggers a Connect, whatever
  capacity is left. A physical connect is issued only by a Connect task that starts, and
  a task triggered before is not called back: while 2 or more failures are within the
  window, the physical connects issued and the Connect tasks waiting to start do not
  grow together, so that the only physical connects then attempted are those of tasks
  triggered before. When every recorded failure is 15 seconds old or older, the count is
  0 again.
\<close>

theorem Pop_circuit_breaker:
  "kRecentErrorPeriod = 15000 \<and> kRecentErrorThreshold = 2 \<and>
   (i < length (callers p) \<and> callers p ! i = PopSizeGuarded d v \<longrightarrow>
      step (CallerStep i) p =
        (if v \<le> max_size (settings p) \<and>
            GetStatsForPeriod 15000 (now p) (recent_conn_errors p) < 2
         then p\<lparr>callers := (callers p)[i := PopWaiting d], tasks := tasks p @ [ConnectQueued]\<rparr>
         else p\<lparr>callers := (callers p)[i := PopWaiting d],
                size_counter := size_counter p - 1\<rparr>)) \<and>
   (2 \<le> GetStatsForPeriod 15000 (now p) (recent_conn_errors p) \<longrightarrow>
      connects_pending (step a p) \<le> connects_pending p) \<and>
   ((\<forall>e \<in> set (recent_conn_errors p). e + 15000 \<le> now p) \<longrightarrow>
      GetStatsForPeriod 15000 (now p) (recent_conn_errors p) = 0) \<and>
   (2 \<le> GetStatsForPeriod 15000 (now p) (recent_conn_errors p) \<longrightarrow>
      physical_connects (step a p) + connects_pending (step a p)
        \<le> physical_connects p + connects_pending p) \<and>
   (physical_connects (step a p) \<noteq> physical_connects p \<longrightarrow>
      (\<exists>j. a = StartTask j \<and> j < length (tasks p) \<and> tasks p ! j = ConnectQueued) \<and>
      physical_connects (step a p) = physical_connects p + 1) \<and>
   (j < length (tasks p) \<and> tasks p ! j = ConnectRunning n ctl \<longrightarrow>
      recent_conn_errors (step (ConnectEnd j r) p) =
        (if r = ConnectionTimeoutError \<or> r = ConnectionError
         then recent_conn_errors p @ [now p] else recent_conn_errors p))"
proof -
  have "connects_pending (step a p) \<le> connects_pending p"
    if "2 \<le> GetStatsForPeriod 15000 (now p) (recent_conn_errors p)"
    using that breaker_step [of p a]
    by (simp add: kRecentErrorPeriod_def kRecentErrorThreshold_def)
  moreover have "physical_connects (step a p) + connects_pending (step a p)
        \<le> physical_connects p + connects_pending p"
    if "2 \<le> GetStatsForPeriod 15000 (now p) (recent_conn_errors p)"
    using that breaker_physical_step [of p a]
    by (simp add: kRecentErrorPeriod_def kRecentErrorThreshold_def)
  moreover have "(\<exists>j. a = StartTask j \<and> j < length (tasks p) \<and> tasks p ! j = ConnectQueued) \<and>
      physical_connects (step a p) = physical_connects p + 1"
    if "physical_connects (step a p) \<noteq> physical_connects p"
    using that physical_step [of a p] by (cases a) (auto split: if_splits)
  moreover have "recent_conn_errors (step (ConnectEnd j r) p) =
        (if r = ConnectionTimeoutError \<or> r = ConnectionError
         then recent_conn_errors p @ [now p] else recent_conn_errors p)"
    if "j < length (tasks p) \<and> tasks p ! j = ConnectRunning n ctl"
    using that recorded_failures [of j p n ctl r] by blast
  moreover have "GetStatsForPeriod 15000 (now p) (recent_conn_errors p) = 0"
    if "\<forall>e \<in> set (recent_conn_errors p). e + 15000 \<le> now p"
    using that by (auto simp: GetStatsForPeriod_def filter_empty_conv)
  moreover have "i < length (callers p) \<and> callers p ! i = PopSizeGuarded d v \<longrightarrow>
      step (CallerStep i) p =
        (if v \<le> max_size (settings p) \<and>
            GetStatsForPeriod 15000 (now p) (recent_conn_errors p) < 2
         then p\<lparr>callers := (callers p)[i := PopWaiting d], tasks := tasks p @ [ConnectQueued]\<rparr>
         else p\<lparr>callers := (callers p)[i := PopWaiting d],
                size_counter := size_counter p - 1\<rparr>)"
    by (auto simp: kRecentErrorPeriod_def kRecentErrorThreshold_def guard_defs)
  moreover have "kRecentErrorPeriod = 15000 \<and> kRecentErrorThreshold = 2"
    by (simp add: kRecentErrorPeriod_def kRecentErrorThreshold_def)
  ultimately show ?thesis by blast
qed

theorem Pop_circuit_breaker_witness:
  "0 < length (callers breaker_open_pool) \<and>
   callers breaker_open_pool ! 0 = PopSizeGuarded 1000 1 \<and>
   1 \<le> max_size (settings breaker_open_pool) \<and>
   2 \<le> GetStatsForPeriod 15000 (now breaker_open_pool) (recent_conn_errors breaker_open_pool) \<and>
   tasks (step (CallerStep 0) breaker_open_pool) = tasks breaker_open_pool \<and>
   size_counter (step (CallerStep 0) breaker_open_pool) = 0 \<and>
   connects_pending (step (CallerStep 0) breaker_open_pool) \<le> connects_pending breaker_open_pool \<and>
   recent_conn_errors breaker_aged_pool = [0, 0] \<and> now breaker_aged_pool = 15000 \<and>
   GetStatsForPeriod 15000 (now breaker_aged_pool) (recent_conn_errors breaker_aged_pool) = 0 \<and>
   tasks (step (CallerStep 0) breaker_aged_pool) = tasks breaker_aged_pool @ [ConnectQueued] \<and>
   2 \<le> GetStatsForPeriod 15000 (now late_connect_pool) (recent_conn_errors late_connect_pool) \<and>
   physical_connects (step (StartTask 2) late_connect_pool) = 3 \<and>
   physical_connects (step (StartTask 2) late_connect_pool)
       + connects_pending (step (StartTask 2) late_connect_pool)
     \<le> physical_connects late_connect_pool + connects_pending late_connect_pool \<and>
   2 < length (tasks (step (StartTask 2) late_connect_pool)) \<and>
   tasks (step (StartTask 2) late_connect_pool) ! 2 = ConnectRunning 3 demo_ctl \<and>
   recent_conn_errors (step (ConnectEnd 2 ConnectionError) (step (StartTask 2) late_connect_pool))
     = [0, 0, 0] \<and>
   recent_conn_errors (step (ConnectEnd 2 Error) (step (StartTask 2) late_connect_pool))
     = [0, 0]"
proof -
  have e: "0 < length (callers breaker_open_pool)"
    "callers breaker_open_pool ! 0 = PopSizeGuarded 1000 1"
    "1 \<le> max_size (settings breaker_open_pool)"
    "2 \<le> GetStatsForPeriod 15000 (now breaker_open_pool) (recent_conn_errors breaker_open_pool)"
    "size_counter breaker_open_pool = 1"
    by (simp_all add: breaker_open_pool_def nine_pool_def eval_defs)
  have f: "0 < length (callers breaker_aged_pool)"
    "callers breaker_aged_pool ! 0 = PopSizeGuarded 1000 1"
    "1 \<le> max_size (settings breaker_aged_pool)"
    "\<forall>e \<in> set (recent_conn_errors breaker_aged_pool). e + 15000 \<le> now breaker_aged_pool"
    by (simp_all add: breaker_aged_pool_def breaker_open_pool_def nine_pool_def eval_defs)
  have g: "recent_conn_errors breaker_aged_pool = [0, 0]" "now breaker_aged_pool = 15000"
    by (simp_all add: breaker_aged_pool_def breaker_open_pool_def nine_pool_def eval_defs)
  note a = Pop_circuit_breaker [of 0 breaker_open_pool 1000 1 "CallerStep 0",
      THEN conjunct2, THEN conjunct2]
  note b = Pop_circuit_breaker [of 0 breaker_aged_pool 1000 1 "CallerStep 0",
      THEN conjunct2, THEN conjunct2]
  from a e have "step (CallerStep 0) breaker_open_pool =
      breaker_open_pool\<lparr>callers := (callers breaker_open_pool)[0 := PopWaiting 1000],
        size_counter := size_counter breaker_open_pool - 1\<rparr>"
    by (simp del: step.simps)
  with e have 1: "tasks (step (CallerStep 0) breaker_open_pool) = tasks breaker_open_pool"
    and 2: "size_counter (step (CallerStep 0) breaker_open_pool) = 0"
    by (simp_all del: step.simps)
  from a e(4) have 3: "connects_pending (step (CallerStep 0) breaker_open_pool)
              \<le> connects_pending breaker_open_pool"
    by blast
  from b f
  have 4: "GetStatsForPeriod 15000 (now breaker_aged_pool) (recent_conn_errors breaker_aged_pool) = 0"
    by blast
  with b f have "step (CallerStep 0) breaker_aged_pool =
      breaker_aged_pool\<lparr>callers := (callers breaker_aged_pool)[0 := PopWaiting 1000],
        tasks := tasks breaker_aged_pool @ [ConnectQueued]\<rparr>"
    by (simp del: step.simps)
  then have 5: "tasks (step (CallerStep 0) breaker_aged_pool)
      = tasks breaker_aged_pool @ [ConnectQueued]"
    by (simp del: step.simps)
  let ?q = "step (StartTask 2) late_connect_pool"
  have h: "2 \<le> GetStatsForPeriod 15000 (now late_connect_pool)
      (recent_conn_errors late_connect_pool)"
    "physical_connects ?q = 3" "physical_connects late_connect_pool = 2"
    "2 < length (tasks ?q)" "tasks ?q ! 2 = ConnectRunning 3 demo_ctl"
    "recent_conn_errors ?q = [0, 0]" "now ?q = 0"
    by (simp_all add: late_connect_pool_def nine_pool_def physical_connects_def eval_defs)
  note c = Pop_circuit_breaker [of 0 late_connect_pool 1000 1 "StartTask 2",
      THEN conjunct2, THEN conjunct2]
  from c h(1) have 6: "physical_connects ?q + connects_pending ?q
     \<le> physical_connects late_connect_pool + connects_pending late_connect_pool"
    by blast
  from Pop_circuit_breaker [of 0 ?q 1000 1 "StartTask 2" 2 3 demo_ctl ConnectionError,
      THEN conjunct2, THEN conjunct2, THEN conjunct2, THEN conjunct2, THEN conjunct2, THEN conjunct2, THEN conjunct2] h(4-7)
  have 7: "recent_conn_errors (step (ConnectEnd 2 ConnectionError) ?q) = [0, 0, 0]"
    by (simp del: step.simps)
  from Pop_circuit_breaker [of 0 ?q 1000 1 "StartTask 2" 2 3 demo_ctl Error,
      THEN conjunct2, THEN conjunct2, THEN conjunct2, THEN conjunct2, THEN conjunct2, THEN conjunct2, THEN conjunct2] h(4-7)
  have 8: "recent_conn_errors (step (ConnectEnd 2 Error) ?q) = [0, 0]"
    by (simp del: step.simps)
  from e f(1-3) g h 1 2 3 4 5 6 7 8 show ?thesis by (simp del: step.simps)
qed

section \<open>The open-connection counter\<close>

lemma settings_Create: "Create d s c t = Inr p \<Longrightarrow> settings p = s"
  by (auto simp: Create_def Init_def ConnectionPoolImpl_def StartPingTask_def
      spawn_connects_frame split: if_splits)

lemma guards_inv_reachable:
  "Create d s c t = Inr p \<Longrightarrow> guards_inv (run sched p) \<and> settings (run sched p) = s"
  by (simp add: guards_inv_run guards_inv_Create settings_run settings_Create)

lemma in_size_block_le_queued:
  "sum_list (map in_size_block xs) \<le> sum_list (map (queued m) xs)"
proof (induction xs)
  case Nil
  show ?case by simp
next
  case (Cons x xs)
  have "in_size_block x \<le> queued m x" by (cases x) simp_all
  with Cons show ?case by simp
qed

lemma connect_trigger:
  assumes "length (tasks (step (CallerStep i) p)) \<noteq> length (tasks p)"
  shows "\<exists>d v. callers p ! i = PopSizeGuarded d v \<and> v \<le> max_size (settings p) \<and>
    tasks (step (CallerStep i) p) = tasks p @ [ConnectQueued]"
proof (cases "i < length (callers p)")
  case True
  with assms show ?thesis
    by (cases "callers p ! i")
      (auto simp: guard_defs Acquire_finish_def split: option.splits if_splits)
next
  case False
  with assms show ?thesis by simp
qed

text \<open>
  Claim C1, as stated. The counter \<open>size_\<close> is incremented by the constructor of the
  size guard before it is compared with \<open>max_size\<close>. In a pool with \<open>max_size = 1\<close> whose
  connection is checked out, a second caller that has taken its size guard has put the
  counter to 2, and GetStatistics reports 2 active connections with a maximum of 1,
  while one connection is open.
\<close>

theorem active_exceeds_max_size:
  "Create ''host=db'' \<lparr>min_size = 1, max_size = 1, max_queue_size = 1\<rparr> demo_ctl 0
     = Inr tiny_pool \<and>
   max_size (settings (run second_acquire_in_size_block tiny_pool)) = 1 \<and>
   size_counter (run second_acquire_in_size_block tiny_pool) = 2 \<and>
   active (connection (stats (run second_acquire_in_size_block tiny_pool))) = 2 \<and>
   maximum (connection (stats (run second_acquire_in_size_block tiny_pool))) = 1 \<and>
   open_connections (run second_acquire_in_size_block tiny_pool) = 1"
  by (simp add: tiny_pool_def second_acquire_in_size_block_def open_connections_def eval_defs)

text \<open>
  Claim C1, amended. In every state that a pool reaches from its construction, under
  any interleaving of callers, holders, tasks and time, the connections that are open
  or being opened are at most \<open>max_size\<close>, the idle queue holds no more than these, and
  the counter \<open>size_\<close> is their number plus the number of callers that hold a size guard
  inside Pop, of which there are at most \<open>max_queue_size\<close>. A caller that passed the
  check of the wait queue increments the counter and keeps the incremented value, and a
  step of a caller starts a Connect task only from that place and only when that value
  is at most \<open>max_size\<close>.
\<close>

theorem open_connections_bounded:
  assumes "Create d s c t = Inr p0"
  shows "open_connections (run sched p0) \<le> max_size s \<and>
    length (items (queue (run sched p0))) \<le> open_connections (run sched p0) \<and>
    size_counter (run sched p0) =
      open_connections (run sched p0) + size_guards_in_pop (run sched p0) \<and>
    size_guards_in_pop (run sched p0) \<le> max_queue_size s \<and>
    (i < length (callers (run sched p0)) \<and>
     callers (run sched p0) ! i = PopWaitGuarded dl w \<and> w \<le> max_queue_size s \<longrightarrow>
       callers (step (CallerStep i) (run sched p0)) ! i
         = PopSizeGuarded dl (size_counter (run sched p0) + 1) \<and>
       size_counter (step (CallerStep i) (run sched p0)) = size_counter (run sched p0) + 1) \<and>
    (length (tasks (step (CallerStep i) (run sched p0))) \<noteq> length (tasks (run sched p0)) \<longrightarrow>
       (\<exists>dl v. callers (run sched p0) ! i = PopSizeGuarded dl v \<and> v \<le> max_size s \<and>
          tasks (step (CallerStep i) (run sched p0)) = tasks (run sched p0) @ [ConnectQueued]))"
proof -
  let ?q = "run sched p0"
  from guards_inv_reachable [OF assms, of sched]
  have inv: "guards_inv ?q" and s: "settings ?q = s" by simp_all
  from inv s in_size_block_le_queued [of "callers ?q" "max_queue_size s"]
  have 1: "open_connections ?q \<le> max_size s"
    and 2: "length (items (queue ?q)) \<le> open_connections ?q"
    and 3: "size_counter ?q = open_connections ?q + size_guards_in_pop ?q"
    and 4: "size_guards_in_pop ?q \<le> max_queue_size s"
    by (simp_all add: inv_defs)
  have 5: "callers (step (CallerStep i) ?q) ! i = PopSizeGuarded dl (size_counter ?q + 1) \<and>
       size_counter (step (CallerStep i) ?q) = size_counter ?q + 1"
    if "i < length (callers ?q)" "callers ?q ! i = PopWaitGuarded dl w" "w \<le> max_queue_size s"
    using that s by (simp add: guard_defs)
  from connect_trigger [of i ?q] s
  have 6: "length (tasks (step (CallerStep i) ?q)) \<noteq> length (tasks ?q) \<longrightarrow>
       (\<exists>dl v. callers ?q ! i = PopSizeGuarded dl v \<and> v \<le> max_size s \<and>
          tasks (step (CallerStep i) ?q) = tasks ?q @ [ConnectQueued])"
    by simp
  from 1 2 3 4 5 6 show ?thesis by blast
qed

theorem open_connections_bounded_witness:
  "Create ''host=db'' \<lparr>min_size = 2, max_size = 5, max_queue_size = 3\<rparr> demo_ctl 0
     = Inr nine_pool \<and>
   open_connections (run third_caller_at_size_guard nine_pool) \<le> 5 \<and>
   size_counter (run third_caller_at_size_guard nine_pool) = 3 \<and>
   callers (run third_caller_at_size_guard nine_pool) ! 2 = PopSizeGuarded 1000 3 \<and>
   length (tasks (step (CallerStep 2) (run third_caller_at_size_guard nine_pool)))
     \<noteq> length (tasks (run third_caller_at_size_guard nine_pool)) \<and>
   tasks (step (CallerStep 2) (run third_caller_at_size_guard nine_pool))
     = tasks (run third_caller_at_size_guard nine_pool) @ [ConnectQueued]"
proof -
  have c: "Create ''host=db'' \<lparr>min_size = 2, max_size = 5, max_queue_size = 3\<rparr> demo_ctl 0
     = Inr nine_pool"
    by (simp add: nine_pool_def eval_defs)
  have e: "size_counter (run third_caller_at_size_guard nine_pool) = 3"
    "callers (run third_caller_at_size_guard nine_pool) ! 2 = PopSizeGuarded 1000 3"
    "length (tasks (step (CallerStep 2) (run third_caller_at_size_guard nine_pool)))
       \<noteq> length (tasks (run third_caller_at_size_guard nine_pool))"
    by (simp_all add: nine_pool_def third_caller_at_size_guard_def nine_calls_def eval_defs)
  note a = open_connections_bounded [OF c, of third_caller_at_size_guard 2]
  from a have 1: "open_connections (run third_caller_at_size_guard nine_pool) \<le> 5"
    by simp
  from a e(3) have 2: "tasks (step (CallerStep 2) (run third_caller_at_size_guard nine_pool))
     = tasks (run third_caller_at_size_guard nine_pool) @ [ConnectQueued]"
    by blast
  from c e 1 2 show ?thesis by blast
qed

section \<open>Nine callers\<close>

text \<open>
  Claim C3, as stated. With \<open>min_size = 2\<close>, \<open>max_size = 5\<close>, \<open>max_queue_size = 3\<close>, nine
  callers with a deadline of one second and a backend on which every connect succeeds,
  the outcome is not fixed by the settings. When the nine callers advance in lockstep,
  five are served, the four others all fail on the wait queue and none waits for its
  deadline. When five are served first and the four others arrive together, three of
  them wait until the deadline and one fails on the wait queue.
\<close>

theorem nine_callers_other_outcomes:
  "Create ''host=db'' \<lparr>min_size = 2, max_size = 5, max_queue_size = 3\<rparr> demo_ctl 0
     = Inr nine_pool \<and>
   outcome (run schedule_5_4_0 nine_pool) = (5, 4, 0) \<and>
   outcome (run schedule_5_1_3 nine_pool) = (5, 1, 3)"
  by (simp add: nine_pool_def schedule_5_4_0_def schedule_5_1_3_def nine_calls_def
      new_connections_def outcome_def eval_defs)

text \<open>
  Claim C3, amended. In that pool no interleaving lets more than five callers hold a
  connection at a time. Five callers served, three failed on the wait queue and one
  failed at its deadline is the outcome of the interleaving in which three callers wait
  for the three new connections while three more arrive, and the last caller arrives
  when these are served.
\<close>

theorem nine_callers_possible_outcome:
  "Create ''host=db'' \<lparr>min_size = 2, max_size = 5, max_queue_size = 3\<rparr> demo_ctl 0
     = Inr nine_pool \<and>
   (\<forall>sched. fst (outcome (run sched nine_pool)) \<le> 5) \<and>
   outcome (run schedule_5_3_1 nine_pool) = (5, 3, 1)"
proof -
  have c: "Create ''host=db'' \<lparr>min_size = 2, max_size = 5, max_queue_size = 3\<rparr> demo_ctl 0
     = Inr nine_pool"
    by (simp add: nine_pool_def eval_defs)
  have "fst (outcome (run sched nine_pool)) \<le> 5" for sched
    using guards_inv_reachable [OF c, of sched] by (auto simp: inv_defs outcome_def)
  moreover have "outcome (run schedule_5_3_1 nine_pool) = (5, 3, 1)"
    by (simp add: nine_pool_def schedule_5_3_1_def nine_calls_def new_connections_def
        outcome_def eval_defs)
  ultimately show ?thesis using c by blast
qed

section \<open>The opened and dropped counters\<close>

lemma balance_inv_run: "balance_inv p \<Longrightarrow> balance_inv (run sched p)"
  by (induction sched arbitrary: p) (simp_all add: balance_inv_step)

lemma balance_inv_Create:
  assumes "Create d s c t = Inr p"
  shows "balance_inv p"
proof -
  from assms
  have p: "p = StartPingTask (spawn_connects (min_size s) (ConnectionPoolImpl d s c t))"
    by (auto simp: Create_def Init_def ConnectionPoolImpl_def split: if_splits)
  show ?thesis
    by (simp add: p balance_inv_def established_def StartPingTask_def spawn_connects_frame
        ConnectionPoolImpl_def sum_list_replicate)
qed

text \<open>
  Claim C10, as stated. \<open>drop_total\<close> is also incremented when a connection that was
  created is destroyed. After one connect that succeeded, whose connection was checked
  out, broke and was released, one connection has been created, \<open>open_total\<close> is 1 and
  \<open>drop_total\<close> is 1: opened minus dropped is 0.
\<close>

theorem opened_minus_dropped_not_created:
  "Create ''host=db'' \<lparr>min_size = 1, max_size = 1, max_queue_size = 1\<rparr> demo_ctl 0
     = Inr tiny_pool \<and>
   connections_created (run closed_connection_released tiny_pool) = 1 \<and>
   open_total (connection (stats (run closed_connection_released tiny_pool))) = 1 \<and>
   drop_total (connection (stats (run closed_connection_released tiny_pool))) = 1 \<and>
   of_nat (connections_created (run closed_connection_released tiny_pool)) \<noteq>
     open_total (connection (stats (run closed_connection_released tiny_pool)))
       - drop_total (connection (stats (run closed_connection_released tiny_pool)))"
  by (simp add: tiny_pool_def closed_connection_released_def connections_created_def eval_defs)

text \<open>
  Claim C10, amended. A Connect task increments \<open>open_total\<close> when it starts, before it
  issues the physical connect and so whatever the outcome; a failed attempt increments
  \<open>drop_total\<close> as well and leaves \<open>open_total\<close> as it is. \<open>drop_total\<close> also counts the
  connections destroyed later, so that in every state a pool reaches, opened minus
  dropped (as 32-bit counters) is the number of connections that are alive or whose
  physical connect is under way, not the number of connections created.
\<close>

theorem opened_minus_dropped:
  "(i < length (tasks p) \<and> tasks p ! i = ConnectQueued \<longrightarrow>
      open_total (connection (stats (step (StartTask i) p)))
        = open_total (connection (stats p)) + 1 \<and>
      drop_total (connection (stats (step (StartTask i) p)))
        = drop_total (connection (stats p)) \<and>
      events (step (StartTask i) p)
        = events p @ [EvPhysicalConnect (open_total (connection (stats p)) + 1)] \<and>
      tasks (step (StartTask i) p) ! i
        = ConnectRunning (open_total (connection (stats p)) + 1) (default_cmd_ctl p)) \<and>
   (i < length (tasks p) \<and> tasks p ! i = ConnectRunning n ctl \<and> r \<noteq> Connected \<longrightarrow>
      open_total (connection (stats (step (ConnectEnd i r) p)))
        = open_total (connection (stats p)) \<and>
      drop_total (connection (stats (step (ConnectEnd i r) p)))
        = drop_total (connection (stats p)) + 1 \<and>
      connections_created (step (ConnectEnd i r) p) = connections_created p) \<and>
   (Create d s c t = Inr p0 \<longrightarrow>
      open_total (connection (stats (run sched p0)))
        - drop_total (connection (stats (run sched p0)))
        = of_nat (established (run sched p0)))"
proof -
  have 1: "open_total (connection (stats (step (StartTask i) p)))
        = open_total (connection (stats p)) + 1 \<and>
      drop_total (connection (stats (step (StartTask i) p)))
        = drop_total (connection (stats p)) \<and>
      events (step (StartTask i) p)
        = events p @ [EvPhysicalConnect (open_total (connection (stats p)) + 1)] \<and>
      tasks (step (StartTask i) p) ! i
        = ConnectRunning (open_total (connection (stats p)) + 1) (default_cmd_ctl p)"
    if "i < length (tasks p)" "tasks p ! i = ConnectQueued"
    using that by (simp add: Connect_begin_def)
  have 2: "open_total (connection (stats (step (ConnectEnd i r) p)))
        = open_total (connection (stats p)) \<and>
      drop_total (connection (stats (step (ConnectEnd i r) p)))
        = drop_total (connection (stats p)) + 1 \<and>
      connections_created (step (ConnectEnd i r) p) = connections_created p"
    if "i < length (tasks p)" "tasks p ! i = ConnectRunning n ctl" "r \<noteq> Connected"
    using that by (cases r) (simp_all add: op_defs connections_created_def)
  have 3: "open_total (connection (stats (run sched p0)))
        - drop_total (connection (stats (run sched p0)))
        = of_nat (established (run sched p0))"
    if "Create d s c t = Inr p0"
    using balance_inv_run [OF balance_inv_Create [OF that], of sched]
    by (simp add: balance_inv_def)
  from 1 2 3 show ?thesis by blast
qed

theorem opened_minus_dropped_witness:
  "0 < length (tasks tiny_pool) \<and> tasks tiny_pool ! 0 = ConnectQueued \<and>
   open_total (connection (stats tiny_pool)) = 0 \<and>
   open_total (connection (stats (step (StartTask 0) tiny_pool))) = 1 \<and>
   events (step (StartTask 0) tiny_pool) = [EvStartPingTask, EvPhysicalConnect 1] \<and>
   tasks (step (StartTask 0) tiny_pool) ! 0 = ConnectRunning 1 demo_ctl \<and>
   ConnectionError \<noteq> Connected \<and>
   open_total (connection (stats (step (ConnectEnd 0 ConnectionError)
     (step (StartTask 0) tiny_pool)))) = 1 \<and>
   drop_total (connection (stats (step (ConnectEnd 0 ConnectionError)
     (step (StartTask 0) tiny_pool)))) = 1 \<and>
   Create ''host=db'' \<lparr>min_size = 1, max_size = 1, max_queue_size = 1\<rparr> demo_ctl 0
     = Inr tiny_pool \<and>
   open_total (connection (stats (run closed_connection_released tiny_pool)))
     - drop_total (connection (stats (run closed_connection_released tiny_pool)))
     = of_nat (established (run closed_connection_released tiny_pool))"
proof -
  let ?p1 = "step (StartTask 0) tiny_pool"
  have e: "0 < length (tasks tiny_pool)" "tasks tiny_pool ! 0 = ConnectQueued"
    "open_total (connection (stats tiny_pool)) = 0"
    "drop_total (connection (stats tiny_pool)) = 0"
    "events tiny_pool = [EvStartPingTask]" "default_cmd_ctl tiny_pool = demo_ctl"
    by (simp_all add: tiny_pool_def eval_defs)
  have c: "Create ''host=db'' \<lparr>min_size = 1, max_size = 1, max_queue_size = 1\<rparr> demo_ctl 0
     = Inr tiny_pool"
    by (simp add: tiny_pool_def eval_defs)
  note a = opened_minus_dropped [of 0 tiny_pool]
  from a e have 1: "open_total (connection (stats ?p1)) = 1"
    and 2: "drop_total (connection (stats ?p1)) = 0"
    and 3: "events ?p1 = [EvStartPingTask, EvPhysicalConnect 1]"
    and 4: "tasks ?p1 ! 0 = ConnectRunning 1 demo_ctl"
    by (simp_all del: step.simps)
  have l: "0 < length (tasks ?p1)" using e by (simp add: Connect_begin_def)
  note b = opened_minus_dropped [of 0 ?p1 1 demo_ctl ConnectionError]
  from b l 4 1 2
  have 5: "open_total (connection (stats (step (ConnectEnd 0 ConnectionError) ?p1))) = 1"
    and 6: "drop_total (connection (stats (step (ConnectEnd 0 ConnectionError) ?p1))) = 1"
    by (simp_all del: step.simps)
  from opened_minus_dropped [of _ _ _ _ _ "''host=db''"
      "\<lparr>min_size = 1, max_size = 1, max_queue_size = 1\<rparr>" demo_ctl 0 tiny_pool
      closed_connection_released] c
  have 7: "open_total (connection (stats (run closed_connection_released tiny_pool)))
     - drop_total (connection (stats (run closed_connection_released tiny_pool)))
     = of_nat (established (run closed_connection_released tiny_pool))"
    by blast
  from e c 1 3 4 5 6 7 show ?thesis by (simp del: step.simps)
qed

section \<open>Release of a busy connection\<close>

lemma timeout_times_10:
  fixes t :: TimeoutDuration
  assumes "- (2 ^ 63) \<le> 10 * sint t" and "10 * sint t < 2 ^ 63"
  shows "sint (t * 10) = 10 * sint t"
proof -
  have "sint (t * 10) = signed_take_bit 63 (sint t * sint (10 :: TimeoutDuration))"
    by (simp add: sint_word_mult)
  also have "sint (10 :: TimeoutDuration) = 10" by simp
  also have "signed_take_bit 63 (sint t * 10) = sint t * 10"
    using assms by (simp add: signed_take_bit_int_eq_self_iff mult.commute)
  finally show ?thesis by (simp add: mult.commute)
qed

text \<open>
  Claim C6, as stated. The timeout passed to Cleanup is the product of the network
  timeout and 10 in the 64-bit count of the duration. For a network timeout of
  922337203685477581 ms the product wraps: Cleanup is called with
  -9223372036854775806 ms, which is not 10 times the network timeout.
\<close>

theorem cleanup_timeout_wraps:
  "callers dirty_holder ! 0 = Holding dirty_conn \<and>
   IsConnected (conn_state dirty_conn) \<and>
   conn_state dirty_conn = BusyDirty \<and>
   default_cmd_ctl (run [SetControl huge_ctl] dirty_holder) = huge_ctl \<and>
   sint (network huge_ctl) = 922337203685477581 \<and>
   events (run cleanup_with_huge_timeout dirty_holder) =
     events dirty_holder @ [EvCleanup 1 (network huge_ctl * 10)] \<and>
   sint (network huge_ctl * 10) = - 9223372036854775806 \<and>
   sint (network huge_ctl * 10) \<noteq> 10 * sint (network huge_ctl)"
  by (simp add: cleanup_with_huge_timeout_def huge_ctl_def dirty_holder_def dirty_conn_def
      busy_stats_def tiny_pool_def eval_defs)

text \<open>
  Claim C6, amended. Release of a connection that is connected and not idle returns at
  once: the caller is done, a cleanup task holding the connection has been started, the
  queue, the counter \<open>size_\<close> and the collaborators are untouched (the statistics were
  folded into the pool's if the connection is not in a transaction). The task calls
  Cleanup with the network timeout of the default command control, as it is when the
  task starts, multiplied by 10 in the 64-bit count of the duration: that is 10 times
  the network timeout whenever the product fits in 64 bits. If the connection
  is idle when Cleanup returns, the statistics it then has are folded into the pool's
  aggregates, no error is counted, and Push puts the connection, idle and with its
  statistics reset, at the end of the idle queue. If Cleanup throws or leaves the
  connection not idle, the connection is destroyed, giving back its size guard, and
  \<open>error_total\<close> and \<open>drop_total\<close> are incremented.
\<close>

theorem Release_dirty_cleanup:
  assumes i: "i < length (callers p)" and h: "callers p ! i = Holding c"
    and conn: "IsConnected (conn_state c)" and busy: "\<not> IsIdle (conn_state c)"
  shows "callers (step (ReleaseBy i) p) = (callers p)[i := Released] \<and>
    tasks (step (ReleaseBy i) p) =
      tasks p @ [CleanupQueued (if IsInTransaction (conn_state c) then c
                                else c\<lparr>conn_stats := no_stats\<rparr>)] \<and>
    queue (step (ReleaseBy i) p) = queue p \<and>
    events (step (ReleaseBy i) p) = events p \<and>
    size_counter (step (ReleaseBy i) p) = size_counter p \<and>
    connection (stats (step (ReleaseBy i) p)) = connection (stats p) \<and>
    transaction (stats (step (ReleaseBy i) p)) =
      (if IsInTransaction (conn_state c) then transaction (stats p)
       else transaction (stats (AccountConnectionStats (conn_stats c) p))) \<and>
    events (run [ReleaseBy i, StartTask (length (tasks p))] p) =
      events p @ [EvCleanup (conn_id c) (network (default_cmd_ctl p) * 10)] \<and>
    callers (run [ReleaseBy i, StartTask (length (tasks p))] p) = (callers p)[i := Released] \<and>
    events (run [ReleaseBy i, SetControl ctl, StartTask (length (tasks p))] p) =
      events p @ [EvCleanup (conn_id c) (network ctl * 10)] \<and>
    (- (2 ^ 63) \<le> 10 * sint (network (default_cmd_ctl p)) \<and>
     10 * sint (network (default_cmd_ctl p)) < 2 ^ 63 \<longrightarrow>
       sint (network (default_cmd_ctl p) * 10) = 10 * sint (network (default_cmd_ctl p))) \<and>
    transaction (stats (run [ReleaseBy i, StartTask (length (tasks p)),
        CleanupEnd (length (tasks p)) (CleanupReturns Idle cs)] p))
      = transaction (stats (AccountConnectionStats cs (step (ReleaseBy i) p))) \<and>
    error_total (connection (stats (run [ReleaseBy i, StartTask (length (tasks p)),
        CleanupEnd (length (tasks p)) (CleanupReturns Idle cs)] p)))
      = error_total (connection (stats p)) \<and>
    (length (items (queue p)) < capacity (queue p) \<longrightarrow>
       items (queue (run [ReleaseBy i, StartTask (length (tasks p)),
           CleanupEnd (length (tasks p)) (CleanupReturns Idle cs)] p))
         = items (queue p) @ [c\<lparr>conn_state := Idle, conn_stats := no_stats\<rparr>] \<and>
       events (run [ReleaseBy i, StartTask (length (tasks p)),
           CleanupEnd (length (tasks p)) (CleanupReturns Idle cs)] p)
         = events p @ [EvCleanup (conn_id c) (network (default_cmd_ctl p) * 10), EvNotifyOne] \<and>
       size_counter (run [ReleaseBy i, StartTask (length (tasks p)),
           CleanupEnd (length (tasks p)) (CleanupReturns Idle cs)] p) = size_counter p \<and>
       drop_total (connection (stats (run [ReleaseBy i, StartTask (length (tasks p)),
           CleanupEnd (length (tasks p)) (CleanupReturns Idle cs)] p)))
         = drop_total (connection (stats p))) \<and>
    (r = CleanupThrows \<or> (r = CleanupReturns s cs \<and> s \<noteq> Idle) \<longrightarrow>
       queue (run [ReleaseBy i, StartTask (length (tasks p)),
           CleanupEnd (length (tasks p)) r] p) = queue p \<and>
       events (run [ReleaseBy i, StartTask (length (tasks p)),
           CleanupEnd (length (tasks p)) r] p)
         = events p @ [EvCleanup (conn_id c) (network (default_cmd_ctl p) * 10),
                       EvDelete (conn_id c)] \<and>
       size_counter (run [ReleaseBy i, StartTask (length (tasks p)),
           CleanupEnd (length (tasks p)) r] p) = size_counter p - 1 \<and>
       error_total (connection (stats (run [ReleaseBy i, StartTask (length (tasks p)),
           CleanupEnd (length (tasks p)) r] p)))
         = error_total (connection (stats p)) + 1 \<and>
       drop_total (connection (stats (run [ReleaseBy i, StartTask (length (tasks p)),
           CleanupEnd (length (tasks p)) r] p)))
         = drop_total (connection (stats p)) + 1)"
proof -
  define c1 where "c1 = (if IsInTransaction (conn_state c) then c else c\<lparr>conn_stats := no_stats\<rparr>)"
  define p0 where
    "p0 = (if IsInTransaction (conn_state c) then p else AccountConnectionStats (conn_stats c) p)"
  let ?c1 = "if IsInTransaction (conn_state c) then c else c\<lparr>conn_stats := no_stats\<rparr>"
  let ?k = "length (tasks p)"
  let ?ev = "EvCleanup (conn_id c) (network (default_cmd_ctl p) * 10)"
  have frame: "tasks p0 = tasks p" "callers p0 = callers p" "events p0 = events p"
    "queue p0 = queue p" "size_counter p0 = size_counter p"
    "default_cmd_ctl p0 = default_cmd_ctl p" "connection (stats p0) = connection (stats p)"
    by (simp_all add: p0_def AccountConnectionStats_def)
  have c1: "conn_id c1 = conn_id c" "c1 = ?c1" by (simp_all add: c1_def)
  from assms have 1: "step (ReleaseBy i) p =
      p0\<lparr>callers := (callers p)[i := Released], tasks := tasks p @ [CleanupQueued c1]\<rparr>"
    by (simp add: Release_def GetStatsAndReset_def AccountConnectionStats_def c1_def p0_def)
  have 2: "step (StartTask ?k) (step (ReleaseBy i) p) =
      p0\<lparr>callers := (callers p)[i := Released], tasks := tasks p @ [CleanupRunning c1],
          events := events p @ [?ev]\<rparr>"
    unfolding 1 by (simp add: Cleanup_begin_def frame c1(1))
  have 3: "step (CleanupEnd ?k x) (step (StartTask ?k) (step (ReleaseBy i) p)) =
      Cleanup_end c1 x
        (p0\<lparr>callers := (callers p)[i := Released], events := events p @ [?ev],
            tasks := tasks p @ [TaskDone]\<rparr>)" for x
    unfolding 2 by (simp add: frame)
  have a: "callers (step (ReleaseBy i) p) = (callers p)[i := Released] \<and>
    tasks (step (ReleaseBy i) p) = tasks p @ [CleanupQueued ?c1] \<and>
    queue (step (ReleaseBy i) p) = queue p \<and>
    events (step (ReleaseBy i) p) = events p \<and>
    size_counter (step (ReleaseBy i) p) = size_counter p \<and>
    connection (stats (step (ReleaseBy i) p)) = connection (stats p)"
    unfolding 1 by (simp add: frame c1(2))
  have a': "transaction (stats (step (ReleaseBy i) p)) =
      (if IsInTransaction (conn_state c) then transaction (stats p)
       else transaction (stats (AccountConnectionStats (conn_stats c) p)))"
    unfolding 1 by (simp add: p0_def)
  have b: "events (run [ReleaseBy i, StartTask ?k] p) = events p @ [?ev] \<and>
    callers (run [ReleaseBy i, StartTask ?k] p) = (callers p)[i := Released]"
    unfolding run.simps 2 by simp
  have b': "events (run [ReleaseBy i, SetControl ctl, StartTask ?k] p) =
      events p @ [EvCleanup (conn_id c) (network ctl * 10)]"
    unfolding run.simps 1
    by (simp add: Cleanup_begin_def SetDefaultCommandControl_def frame c1(1))
  have b'': "sint (network (default_cmd_ctl p) * 10) = 10 * sint (network (default_cmd_ctl p))"
    if "- (2 ^ 63) \<le> 10 * sint (network (default_cmd_ctl p))"
      "10 * sint (network (default_cmd_ctl p)) < 2 ^ 63"
    using that by (rule timeout_times_10)
  have c: "transaction (stats (run [ReleaseBy i, StartTask ?k,
        CleanupEnd ?k (CleanupReturns Idle cs)] p))
      = transaction (stats (AccountConnectionStats cs (step (ReleaseBy i) p))) \<and>
    error_total (connection (stats (run [ReleaseBy i, StartTask ?k,
        CleanupEnd ?k (CleanupReturns Idle cs)] p)))
      = error_total (connection (stats p))"
    unfolding run.simps 3 1 by (simp add: op_defs IsIdle_def frame)
  have d: "items (queue (run [ReleaseBy i, StartTask ?k, CleanupEnd ?k (CleanupReturns Idle cs)] p))
         = items (queue p) @ [c\<lparr>conn_state := Idle, conn_stats := no_stats\<rparr>] \<and>
       events (run [ReleaseBy i, StartTask ?k, CleanupEnd ?k (CleanupReturns Idle cs)] p)
         = events p @ [?ev, EvNotifyOne] \<and>
       size_counter (run [ReleaseBy i, StartTask ?k, CleanupEnd ?k (CleanupReturns Idle cs)] p)
         = size_counter p \<and>
       drop_total (connection (stats (run [ReleaseBy i, StartTask ?k,
           CleanupEnd ?k (CleanupReturns Idle cs)] p)))
         = drop_total (connection (stats p))"
    if "length (items (queue p)) < capacity (queue p)"
    unfolding run.simps 3 using that
    by (simp add: op_defs IsIdle_def c1_def frame)
  have e: "queue (run [ReleaseBy i, StartTask ?k, CleanupEnd ?k r] p) = queue p \<and>
       events (run [ReleaseBy i, StartTask ?k, CleanupEnd ?k r] p)
         = events p @ [?ev, EvDelete (conn_id c)] \<and>
       size_counter (run [ReleaseBy i, StartTask ?k, CleanupEnd ?k r] p) = size_counter p - 1 \<and>
       error_total (connection (stats (run [ReleaseBy i, StartTask ?k, CleanupEnd ?k r] p)))
         = error_total (connection (stats p)) + 1 \<and>
       drop_total (connection (stats (run [ReleaseBy i, StartTask ?k, CleanupEnd ?k r] p)))
         = drop_total (connection (stats p)) + 1"
    if "r = CleanupThrows \<or> (r = CleanupReturns s cs \<and> s \<noteq> Idle)"
    unfolding run.simps 3 using that
    by (auto simp: op_defs IsIdle_def guard_defs frame c1(1))
  from a a' b b' b'' c d e show ?thesis by (simp only:) blast
qed

theorem Release_dirty_cleanup_witness:
  "0 < length (callers dirty_holder) \<and> callers dirty_holder ! 0 = Holding dirty_conn \<and>
   IsConnected (conn_state dirty_conn) \<and> \<not> IsIdle (conn_state dirty_conn) \<and>
   length (tasks dirty_holder) = 1 \<and>
   callers (step (ReleaseBy 0) dirty_holder) = [Released] \<and>
   tasks (step (ReleaseBy 0) dirty_holder)
     = [TaskDone, CleanupQueued (dirty_conn\<lparr>conn_stats := no_stats\<rparr>)] \<and>
   events (run [ReleaseBy 0, StartTask 1] dirty_holder)
     = events dirty_holder @ [EvCleanup 1 5000] \<and>
   - (2 ^ 63) \<le> 10 * sint (network (default_cmd_ctl dirty_holder)) \<and>
   10 * sint (network (default_cmd_ctl dirty_holder)) < 2 ^ 63 \<and>
   sint (network (default_cmd_ctl dirty_holder) * 10) = 5000 \<and>
   length (items (queue dirty_holder)) < capacity (queue dirty_holder) \<and>
   items (queue (run [ReleaseBy 0, StartTask 1, CleanupEnd 1 (CleanupReturns Idle no_stats)]
     dirty_holder)) = [dirty_conn\<lparr>conn_state := Idle, conn_stats := no_stats\<rparr>] \<and>
   total_cnt (transaction (stats (run [ReleaseBy 0, StartTask 1,
     CleanupEnd 1 (CleanupReturns Idle no_stats)] dirty_holder))) = 1 \<and>
   error_total (connection (stats (run [ReleaseBy 0, StartTask 1,
     CleanupEnd 1 (CleanupReturns Idle no_stats)] dirty_holder))) = 0 \<and>
   error_total (connection (stats (run [ReleaseBy 0, StartTask 1, CleanupEnd 1 CleanupThrows]
     dirty_holder))) = 1 \<and>
   drop_total (connection (stats (run [ReleaseBy 0, StartTask 1, CleanupEnd 1 CleanupThrows]
     dirty_holder))) = 1 \<and>
   size_counter (run [ReleaseBy 0, StartTask 1, CleanupEnd 1 CleanupThrows] dirty_holder) = 0 \<and>
   items (queue (run [ReleaseBy 0, StartTask 1, CleanupEnd 1 CleanupThrows] dirty_holder)) = []"
proof -
  have e: "0 < length (callers dirty_holder)" "callers dirty_holder ! 0 = Holding dirty_conn"
    "IsConnected (conn_state dirty_conn)" "\<not> IsIdle (conn_state dirty_conn)"
    by (simp_all add: dirty_holder_def dirty_conn_def busy_stats_def tiny_pool_def eval_defs)
  have t: "length (tasks dirty_holder) = 1"
    by (simp add: dirty_holder_def tiny_pool_def eval_defs)
  have f: "callers dirty_holder = [Holding dirty_conn]" "tasks dirty_holder = [TaskDone]"
    "\<not> IsInTransaction (conn_state dirty_conn)" "conn_id dirty_conn = 1"
    "network (default_cmd_ctl dirty_holder) = 500"
    "length (items (queue dirty_holder)) < capacity (queue dirty_holder)"
    "items (queue dirty_holder) = []"
    "total_cnt (transaction (stats (AccountConnectionStats no_stats
       (step (ReleaseBy 0) dirty_holder)))) = 1"
    "error_total (connection (stats dirty_holder)) = 0"
    "drop_total (connection (stats dirty_holder)) = 0"
    "size_counter dirty_holder = 1"
    by (simp_all add: dirty_holder_def dirty_conn_def busy_stats_def tiny_pool_def eval_defs)
  note a = Release_dirty_cleanup [OF e, of demo_ctl no_stats CleanupThrows Idle, unfolded t]
  from a f e t show ?thesis
    by (simp del: step.simps run.simps)
qed

section \<open>The used counter\<close>

text \<open>
  Claim C9. Release decrements \<open>used\<close> once on each of its paths. For an idle or a
  closed connection the decrement is done when Release returns, and no task is started.
  For a connection that is connected and not idle, Release leaves \<open>used\<close> as it is and
  starts the cleanup task, which holds the guard: \<open>used\<close> is unchanged while Cleanup
  runs and is decremented when the task ends, whether the connection was pushed back or
  destroyed.
\<close>

theorem Release_used_once:
  assumes i: "i < length (callers p)" and h: "callers p ! i = Holding c"
  shows "(IsIdle (conn_state c) \<or> \<not> IsConnected (conn_state c) \<longrightarrow>
       used (connection (stats (step (ReleaseBy i) p))) = used (connection (stats p)) - 1 \<and>
       tasks (step (ReleaseBy i) p) = tasks p) \<and>
    (\<not> IsIdle (conn_state c) \<and> IsConnected (conn_state c) \<longrightarrow>
       used (connection (stats (step (ReleaseBy i) p))) = used (connection (stats p)) \<and>
       length (tasks (step (ReleaseBy i) p)) = length (tasks p) + 1 \<and>
       used (connection (stats (run [ReleaseBy i, StartTask (length (tasks p))] p)))
         = used (connection (stats p)) \<and>
       used (connection (stats (run [ReleaseBy i, StartTask (length (tasks p)),
           CleanupEnd (length (tasks p)) r] p)))
         = used (connection (stats p)) - 1)"
proof -
  have 1: "used (connection (stats (step (ReleaseBy i) p))) = used (connection (stats p)) - 1 \<and>
       tasks (step (ReleaseBy i) p) = tasks p"
    if "IsIdle (conn_state c) \<or> \<not> IsConnected (conn_state c)"
    using that i h
    by (cases "conn_state c")
      (auto simp: op_defs IsIdle_def IsConnected_def IsInTransaction_def)
  have 2: "used (connection (stats (step (ReleaseBy i) p))) = used (connection (stats p)) \<and>
       length (tasks (step (ReleaseBy i) p)) = length (tasks p) + 1 \<and>
       used (connection (stats (run [ReleaseBy i, StartTask (length (tasks p))] p)))
         = used (connection (stats p)) \<and>
       used (connection (stats (run [ReleaseBy i, StartTask (length (tasks p)),
           CleanupEnd (length (tasks p)) r] p)))
         = used (connection (stats p)) - 1"
    if "\<not> IsIdle (conn_state c)" "IsConnected (conn_state c)"
  proof (cases "IsInTransaction (conn_state c)")
    case True
    with that i h show ?thesis
      by (cases r) (auto simp: op_defs nth_append)
  next
    case False
    with that i h show ?thesis
      by (cases r) (auto simp: op_defs nth_append)
  qed
  from 1 2 show ?thesis by blast
qed

theorem Release_used_once_witness:
  "0 < length (callers idle_holder) \<and>
   callers idle_holder ! 0 = Holding (dirty_conn\<lparr>conn_state := Idle, conn_stats := no_stats\<rparr>) \<and>
   used (connection (stats idle_holder)) = 1 \<and>
   used (connection (stats (step (ReleaseBy 0) idle_holder))) = 0 \<and>
   tasks (step (ReleaseBy 0) idle_holder) = tasks idle_holder \<and>
   0 < length (callers dirty_holder) \<and> callers dirty_holder ! 0 = Holding dirty_conn \<and>
   IsConnected (conn_state dirty_conn) \<and> \<not> IsIdle (conn_state dirty_conn) \<and>
   used (connection (stats dirty_holder)) = 1 \<and> length (tasks dirty_holder) = 1 \<and>
   used (connection (stats (step (ReleaseBy 0) dirty_holder))) = 1 \<and>
   used (connection (stats (run [ReleaseBy 0, StartTask 1] dirty_holder))) = 1 \<and>
   used (connection (stats (run [ReleaseBy 0, StartTask 1, CleanupEnd 1 (CleanupReturns Idle no_stats)]
     dirty_holder))) = 0"
proof -
  have e: "0 < length (callers idle_holder)"
    "callers idle_holder ! 0 = Holding (dirty_conn\<lparr>conn_state := Idle, conn_stats := no_stats\<rparr>)"
    "0 < length (callers dirty_holder)" "callers dirty_holder ! 0 = Holding dirty_conn"
    by (simp_all add: idle_holder_def dirty_holder_def dirty_conn_def busy_stats_def
        tiny_pool_def eval_defs)
  have f: "used (connection (stats idle_holder)) = 1" "used (connection (stats dirty_holder)) = 1"
    "IsConnected (conn_state dirty_conn)" "\<not> IsIdle (conn_state dirty_conn)"
    "IsIdle (conn_state (dirty_conn\<lparr>conn_state := Idle, conn_stats := no_stats\<rparr>))"
    by (simp_all add: idle_holder_def dirty_holder_def dirty_conn_def busy_stats_def
        tiny_pool_def eval_defs)
  have t: "length (tasks dirty_holder) = 1"
    by (simp add: dirty_holder_def tiny_pool_def eval_defs)
  note a = Release_used_once [OF e(1,2)]
  note b = Release_used_once [OF e(3,4), of "CleanupReturns Idle no_stats", unfolded t]
  from a f have 1: "used (connection (stats (step (ReleaseBy 0) idle_holder))) = 0"
    and 2: "tasks (step (ReleaseBy 0) idle_holder) = tasks idle_holder"
    by (simp_all del: step.simps run.simps)
  from b f have 3: "used (connection (stats (step (ReleaseBy 0) dirty_holder))) = 1"
    and 4: "used (connection (stats (run [ReleaseBy 0, StartTask 1] dirty_holder))) = 1"
    and 5: "used (connection (stats (run [ReleaseBy 0, StartTask 1,
      CleanupEnd 1 (CleanupReturns Idle no_stats)] dirty_holder))) = 0"
    by (simp_all del: step.simps run.simps)
  from e f t 1 2 3 4 5 show ?thesis by (simp del: step.simps run.simps)
qed

end
